theory Spec2Isabelle
  imports Complex_Main
begin

section \<open>JavaScript strings\<close>

text \<open>
  A JavaScript string is a sequence of UTF-16 code units. The literals of
  \<^verbatim>\<open>src/services/llmService.js\<close> that the model needs are all ASCII; \<open>js\<close> turns
  an Isabelle literal into the code units of the same JavaScript literal.
\<close>

type_synonym code_unit = nat
type_synonym js_string = "code_unit list"

definition js :: "string \<Rightarrow> js_string" where
  "js s = map of_char s"

text \<open>
  The code units matched by \<^verbatim>\<open>\s\<close> in a regular expression and stripped by
  \<^verbatim>\<open>String.prototype.trim\<close>: WhiteSpace and LineTerminator of ECMAScript
  (TAB, LF, VT, FF, CR, SP, NBSP, U+1680, U+2000..U+200A, LS, PS, U+202F, U+205F,
  U+3000, U+FEFF).
\<close>

definition is_ws :: "code_unit \<Rightarrow> bool" where
  "is_ws c \<longleftrightarrow>
     c = 0x09 \<or> c = 0x0A \<or> c = 0x0B \<or> c = 0x0C \<or> c = 0x0D \<or> c = 0x20 \<or> c = 0xA0 \<or>
     c = 0x1680 \<or> (0x2000 \<le> c \<and> c \<le> 0x200A) \<or> c = 0x2028 \<or> c = 0x2029 \<or>
     c = 0x202F \<or> c = 0x205F \<or> c = 0x3000 \<or> c = 0xFEFF"

definition trim :: "js_string \<Rightarrow> js_string" where
  "trim s = rev (dropWhile is_ws (rev (dropWhile is_ws s)))"

section \<open>JavaScript numbers\<close>

text \<open>
  A finite Number is an IEEE 754 binary64 value: an integer mantissa below
  \<open>2 ^ 53\<close> in absolute value, times a power of two with exponent from -1074 on.
  \<open>NaN\<close>, the infinities and the negative zero are left out, and so is overflow:
  the code multiplies a confidence by 100, and a confidence lies between 0 and 1.
\<close>

record js_number =
  mantissa :: int
  exponent :: int

definition number_value :: "js_number \<Rightarrow> rat" where
  "number_value x =
     (if 0 \<le> exponent x then of_int (mantissa x) * 2 ^ nat (exponent x)
      else of_int (mantissa x) / 2 ^ nat (- exponent x))"

fun bit_length :: "nat \<Rightarrow> nat" where
  "bit_length n = (if n = 0 then 0 else Suc (bit_length (n div 2)))"

text \<open>\<open>m / 2 ^ k\<close> rounded to the nearest integer, a tie going to the even one.\<close>

definition round_ties_even :: "int \<Rightarrow> nat \<Rightarrow> int" where
  "round_ties_even m k =
     (let q = m div 2 ^ k; r = m mod 2 ^ k in
      if 2 * r < 2 ^ k then q
      else if 2 ^ k < 2 * r then q + 1
      else if even q then q else q + 1)"

text \<open>
  The binary64 value nearest to \<open>m * 2 ^ e\<close> (roundTiesToEven): the mantissa is
  cut to 53 bits, and to fewer where the exponent would fall below -1074.
\<close>

definition round_binary64 :: "int \<Rightarrow> int \<Rightarrow> js_number" where
  "round_binary64 m e =
     (let k = max (int (bit_length (nat \<bar>m\<bar>)) - 53) (- 1074 - e) in
      if 0 < k then \<lparr>mantissa = round_ties_even m (nat k), exponent = e + k\<rparr>
      else \<lparr>mantissa = m, exponent = e\<rparr>)"

text \<open>The operator \<^verbatim>\<open>*\<close>: the exact product, rounded.\<close>

definition js_times :: "js_number \<Rightarrow> js_number \<Rightarrow> js_number" where
  "js_times x y = round_binary64 (mantissa x * mantissa y) (exponent x + exponent y)"

definition number_100 :: js_number where
  "number_100 = \<lparr>mantissa = 100, exponent = 0\<rparr>"

text \<open>
  \<^verbatim>\<open>Number.prototype.toFixed(0)\<close> for a number below \<open>10 ^ 21\<close> in absolute value:
  the integer \<open>n\<close> for which \<open>n - x\<close> is as close to zero as possible, the larger
  one if there are two, in decimal digits; for a negative number the same for
  \<open>- x\<close>, after a minus sign.
\<close>

definition nearest_integer :: "js_number \<Rightarrow> int" where
  "nearest_integer x =
     (if 0 \<le> exponent x then mantissa x * 2 ^ nat (exponent x)
      else (2 * mantissa x + 2 ^ nat (- exponent x)) div 2 ^ Suc (nat (- exponent x)))"

fun decimal :: "nat \<Rightarrow> js_string" where
  "decimal n = (if n < 10 then [48 + n] else decimal (n div 10) @ [48 + n mod 10])"

definition toFixed0 :: "js_number \<Rightarrow> js_string" where
  "toFixed0 x =
     (if mantissa x < 0
      then js ''-'' @ decimal (nat (nearest_integer (x\<lparr>mantissa := - mantissa x\<rparr>)))
      else decimal (nat (nearest_integer x)))"

section \<open>The regular expressions of parseAdviceResponse\<close>

text \<open>
  The six patterns use: literal characters, the classes \<^verbatim>\<open>\s\<close> and \<^verbatim>\<open>.\<close>, a greedy
  star and a lazy plus over a class, one capture group, alternation, a positive
  lookahead and \<^verbatim>\<open>$\<close>. All carry the flags \<^verbatim>\<open>i\<close> and \<^verbatim>\<open>s\<close> and no others: literal
  characters are compared after canonicalisation, \<^verbatim>\<open>.\<close> matches every code unit, and
  \<^verbatim>\<open>$\<close> (no flag \<^verbatim>\<open>m\<close>) matches at the end of the input only.
\<close>

datatype cclass = Dot | Space

datatype regex =
    Chars js_string
  | Star cclass
  | PlusLazy cclass
  | Seq regex regex
  | Alt regex regex
  | Group regex
  | Lookahead regex
  | EndAnchor

text \<open>
  Canonicalize of ECMAScript without the flag \<^verbatim>\<open>u\<close> maps a code unit to its upper
  case, and never maps a code unit from 128 on to one below 128. Every literal
  character of the six patterns is below 128, so comparing canonical forms agrees
  with comparing after upper-casing \<^verbatim>\<open>a\<close>..\<^verbatim>\<open>z\<close> alone.
\<close>

definition canonicalize :: "code_unit \<Rightarrow> code_unit" where
  "canonicalize c = (if 0x61 \<le> c \<and> c \<le> 0x7A then c - 0x20 else c)"

fun chars_match :: "js_string \<Rightarrow> js_string \<Rightarrow> bool" where
  "chars_match [] s = True"
| "chars_match (p # ps) [] = False"
| "chars_match (p # ps) (x # xs) =
     (if canonicalize x = canonicalize p then chars_match ps xs else False)"

fun in_class :: "cclass \<Rightarrow> code_unit \<Rightarrow> bool" where
  "in_class Dot c = True"
| "in_class Space c = is_ws c"

text \<open>
  A backtracking matcher tries its choices in a fixed order and answers with the
  first that lets the rest of the pattern match. The model returns every way a
  pattern can match at the front of the input, in the order the matcher tries them:
  the remaining inputs for a quantifier, and for a whole pattern the states (capture
  of group 1, remaining input). The matcher's answer is the head of that list.
\<close>

fun star_greedy :: "(code_unit \<Rightarrow> bool) \<Rightarrow> js_string \<Rightarrow> js_string list" where
  "star_greedy p [] = [[]]"
| "star_greedy p (x # xs) = (if p x then star_greedy p xs @ [x # xs] else [x # xs])"

fun star_lazy :: "(code_unit \<Rightarrow> bool) \<Rightarrow> js_string \<Rightarrow> js_string list" where
  "star_lazy p [] = [[]]"
| "star_lazy p (x # xs) = (x # xs) # (if p x then star_lazy p xs else [])"

fun plus_lazy :: "(code_unit \<Rightarrow> bool) \<Rightarrow> js_string \<Rightarrow> js_string list" where
  "plus_lazy p [] = []"
| "plus_lazy p (x # xs) = (if p x then star_lazy p xs else [])"

type_synonym mstate = "js_string option \<times> js_string"

fun matcher :: "regex \<Rightarrow> mstate \<Rightarrow> mstate list" where
  "matcher (Chars l) (cap, s) = (if chars_match l s then [(cap, drop (length l) s)] else [])"
| "matcher (Star c) (cap, s) = map (Pair cap) (star_greedy (in_class c) s)"
| "matcher (PlusLazy c) (cap, s) = map (Pair cap) (plus_lazy (in_class c) s)"
| "matcher (Seq r1 r2) st = concat (map (matcher r2) (matcher r1 st))"
| "matcher (Alt r1 r2) st = matcher r1 st @ matcher r2 st"
| "matcher (Group r) (cap, s) =
     map (\<lambda>(c', s'). (Some (take (length s - length s') s), s')) (matcher r (cap, s))"
| "matcher (Lookahead r) (cap, s) =
     (case matcher r (cap, s) of [] \<Rightarrow> [] | (c', s') # _ \<Rightarrow> [(c', s)])"
| "matcher EndAnchor (cap, s) = (if s = [] then [(cap, s)] else [])"

text \<open>
  RegExpBuiltinExec for a pattern without the flags \<^verbatim>\<open>g\<close> and \<^verbatim>\<open>y\<close>: the matcher is
  tried at index 0, 1, ... up to and including the length of the input, and the
  first index where it succeeds gives the match.
\<close>

fun regexp_exec :: "regex \<Rightarrow> js_string \<Rightarrow> mstate option" where
  "regexp_exec r [] = (case matcher r (None, []) of [] \<Rightarrow> None | y # _ \<Rightarrow> Some y)"
| "regexp_exec r (x # xs) =
     (case matcher r (None, x # xs) of [] \<Rightarrow> regexp_exec r xs | y # _ \<Rightarrow> Some y)"

text \<open>
  \<^verbatim>\<open>/LABEL:\s*(.+?)(?=\n\n|NEXT:|$)/is\<close>, and the last pattern, which has no next
  label: \<^verbatim>\<open>/PREVENTION:\s*(.+?)(?=\n\n|$)/is\<close>.
\<close>

definition blank_line :: js_string where
  "blank_line = [0x0A, 0x0A]"

definition section_re :: "string \<Rightarrow> string \<Rightarrow> regex" where
  "section_re label nxt =
     Seq (Chars (js label)) (Seq (Star Space) (Seq (Group (PlusLazy Dot))
       (Lookahead (Alt (Chars blank_line) (Alt (Chars (js nxt)) EndAnchor)))))"

definition last_section_re :: "string \<Rightarrow> regex" where
  "last_section_re label =
     Seq (Chars (js label)) (Seq (Star Space) (Seq (Group (PlusLazy Dot))
       (Lookahead (Alt (Chars blank_line) EndAnchor))))"

definition cause_re :: regex where
  "cause_re = section_re ''CAUSE:'' ''SYMPTOMS:''"

definition symptoms_re :: regex where
  "symptoms_re = section_re ''SYMPTOMS:'' ''IMMEDIATE:''"

definition immediate_re :: regex where
  "immediate_re = section_re ''IMMEDIATE:'' ''CHEMICAL:''"

definition chemical_re :: regex where
  "chemical_re = section_re ''CHEMICAL:'' ''ORGANIC:''"

definition organic_re :: regex where
  "organic_re = section_re ''ORGANIC:'' ''PREVENTION:''"

definition prevention_re :: regex where
  "prevention_re = last_section_re ''PREVENTION:''"

section \<open>parseAdviceResponse\<close>

text \<open>
  A thrown JavaScript error, with the two properties the code reads:
  \<^verbatim>\<open>message\<close> and \<^verbatim>\<open>status\<close> (absent on an error made by \<^verbatim>\<open>new Error(msg)\<close>).
\<close>

record js_error =
  message :: js_string
  status :: "nat option"

definition new_Error :: "js_string \<Rightarrow> js_error" where
  "new_Error msg = \<lparr>message = msg, status = None\<rparr>"

text \<open>
  The argument of parseAdviceResponse is \<^verbatim>\<open>response.text\<close>: a string, or
  \<^verbatim>\<open>undefined\<close> or \<^verbatim>\<open>null\<close>, on which \<^verbatim>\<open>text.match\<close> throws a TypeError.
\<close>

datatype js_text = JString js_string | JUndefined | JNull

record advice =
  cause :: js_string
  symptoms :: js_string
  immediate :: js_string
  chemical :: js_string
  organic :: js_string
  prevention :: js_string

text \<open>
  \<^verbatim>\<open>m ? m[1].trim() : fallback\<close> for \<^verbatim>\<open>m = text.match(re)\<close>. Element 1 of a match
  is \<^verbatim>\<open>undefined\<close> when group 1 took no part in it, and \<^verbatim>\<open>undefined.trim()\<close>
  throws.
\<close>

definition match_or :: "regex \<Rightarrow> js_string \<Rightarrow> js_string \<Rightarrow> js_error + js_string" where
  "match_or re fallback text =
     (case regexp_exec re text of
        None \<Rightarrow> Inr fallback
      | Some (None, _) \<Rightarrow> Inl (new_Error (js ''Cannot read properties of undefined''))
      | Some (Some c, _) \<Rightarrow> Inr (trim c))"

definition bind_err :: "'e + 'a \<Rightarrow> ('a \<Rightarrow> 'e + 'b) \<Rightarrow> 'e + 'b" where
  "bind_err m f = (case m of Inl e \<Rightarrow> Inl e | Inr v \<Rightarrow> f v)"

definition try_parse :: "js_text \<Rightarrow> js_error + advice" where
  "try_parse t =
     (case t of
        JString text \<Rightarrow>
          bind_err (match_or cause_re (js ''Unable to determine cause'') text) (\<lambda>c.
          bind_err (match_or symptoms_re (js ''Unable to determine symptoms'') text) (\<lambda>s.
          bind_err (match_or immediate_re (js ''Consult agricultural expert'') text) (\<lambda>i.
          bind_err (match_or chemical_re (js ''Consult local agriculture office'') text) (\<lambda>ch.
          bind_err (match_or organic_re (js ''Neem oil spray recommended'') text) (\<lambda>org.
          bind_err (match_or prevention_re (js ''Maintain proper plant hygiene'') text) (\<lambda>p.
          Inr \<lparr>cause = c, symptoms = s, immediate = i, chemical = ch, organic = org,
                prevention = p\<rparr>))))))
      | JUndefined \<Rightarrow> Inl (new_Error (js ''Cannot read properties of undefined''))
      | JNull \<Rightarrow> Inl (new_Error (js ''Cannot read properties of null'')))"

definition parseAdviceResponse :: "js_text \<Rightarrow> js_error + advice" where
  "parseAdviceResponse t =
     (case try_parse t of
        Inl e \<Rightarrow> Inl (new_Error (js ''Failed to parse AI response''))
      | Inr a \<Rightarrow> Inr a)"


section \<open>generateCropAdvice\<close>

text \<open>
  \<^verbatim>\<open>diseaseData\<close>: crop, disease and severity are strings, confidence is a number.
\<close>

record DetectionInput =
  crop :: js_string
  disease :: js_string
  severity :: js_string
  confidence :: js_number

record Metadata =
  crop :: js_string
  disease :: js_string
  severity :: js_string
  confidence :: js_number
  generatedAt :: js_string
  model :: js_string

text \<open>\<^verbatim>\<open>advice.metadata = {...}\<close> adds a seventh property to the parsed object.\<close>

record AdviceResult = advice +
  metadata :: Metadata

text \<open>
  The argument of \<^verbatim>\<open>generateContent\<close>:
  \<^verbatim>\<open>{model, contents: [{role: "user", parts: [{text: prompt}]}]}\<close>, and its result,
  of which the code reads the property \<^verbatim>\<open>text\<close>.
\<close>

record request =
  model :: js_string
  role :: js_string
  parts_text :: js_string

record response =
  response_text :: js_text

text \<open>
  What the code obtains from outside itself during one call of generateCropAdvice:
  the outcome of \<^verbatim>\<open>await this.ai.models.generateContent(...)\<close> (a thrown error or a
  response) and the value of \<^verbatim>\<open>new Date().toISOString()\<close>. Console output is not
  modelled.
\<close>

record js_env =
  generateContent :: "request \<Rightarrow> js_error + response"
  toISOString_now :: js_string

record LLMService =
  modelName :: js_string

definition new_LLMService :: LLMService where
  "new_LLMService = \<lparr>modelName = js ''gemini-2.5-flash''\<rparr>"

text \<open>
  The prompt is one template literal: the text up to the confidence, the confidence
  as \<^verbatim>\<open>(confidence * 100).toFixed(0)\<close>, and the rest, which starts with the percent
  sign.
\<close>

definition prompt_intro :: "DetectionInput \<Rightarrow> js_string" where
  "prompt_intro d =
     js ''You are an expert agricultural advisor. A farmer has a '' @ DetectionInput.crop d @
     js '' plant infected with '' @ DetectionInput.disease d @
     js ''. The severity is '' @ DetectionInput.severity d @
     js '' and detection confidence is ''"

definition prompt_format :: js_string where
  "prompt_format =
     js ''%.\<newline>\<newline>Provide concise, practical advice in the following exact format (keep each point to one short sentence):\<newline>\<newline>CAUSE: [State the primary cause in simple terms]\<newline>\<newline>SYMPTOMS: [List 2-3 visible signs]\<newline>\<newline>IMMEDIATE: [One quick action to stop the spread]\<newline>\<newline>CHEMICAL: [One common pesticide/fungicide with dosage]\<newline>\<newline>ORGANIC: [One natural remedy]\<newline>\<newline>PREVENTION: [One simple tip to avoid future occurrence]\<newline>\<newline>Keep the language simple and practical for farmers. Focus on actionable advice. If confidence is below 60%, mention a mild caution in the IMMEDIATE step.''"

definition build_prompt :: "DetectionInput \<Rightarrow> js_string" where
  "build_prompt d =
     prompt_intro d @ toFixed0 (js_times (DetectionInput.confidence d) number_100) @
     prompt_format"

text \<open>
  The body of the \<^verbatim>\<open>try\<close> block: the call, \<^verbatim>\<open>response.text\<close>, the parse, the
  metadata. Whatever is thrown inside it, by the call or by parseAdviceResponse,
  reaches the one \<^verbatim>\<open>catch\<close>.
\<close>

definition try_generate :: "LLMService \<Rightarrow> js_env \<Rightarrow> DetectionInput \<Rightarrow> js_error + AdviceResult" where
  "try_generate this env d =
     bind_err (generateContent env
        \<lparr>model = modelName this, role = js ''user'', parts_text = build_prompt d\<rparr>) (\<lambda>resp.
     bind_err (parseAdviceResponse (response_text resp)) (\<lambda>a.
     Inr \<lparr>cause = cause a, symptoms = symptoms a, immediate = immediate a,
          chemical = chemical a, organic = organic a, prevention = prevention a,
          metadata = \<lparr>crop = DetectionInput.crop d, disease = DetectionInput.disease d,
            severity = DetectionInput.severity d, confidence = DetectionInput.confidence d,
            generatedAt = toISOString_now env, model = modelName this\<rparr>\<rparr>))"

definition generateCropAdvice :: "LLMService \<Rightarrow> js_env \<Rightarrow> DetectionInput \<Rightarrow> js_error + AdviceResult" where
  "generateCropAdvice this env d =
     (case try_generate this env d of
        Inl error \<Rightarrow>
          Inl (new_Error (js ''Failed to generate advice from Gemini AI: '' @ message error))
      | Inr a \<Rightarrow> Inr a)"

section \<open>generateBatchAdvice\<close>

text \<open>
  \<^verbatim>\<open>Promise.all\<close> of ECMAScript over promises that settle one at a time. The state
  holds the list of values with one slot per promise, the count of slots still to
  fill, and the outcome of the combined promise (\<open>None\<close> while it is pending).
  A rejection rejects the combined promise if it is still pending; a fulfilment
  fills its slot once and, when no slot is left, fulfils the combined promise with
  the values in the order of the promises. Settling a settled promise does nothing.
\<close>

record 'a all_state =
  values_list :: "'a option list"
  remainingElementsCount :: nat
  outcome :: "(js_error + 'a list) option"

definition all_start :: "nat \<Rightarrow> 'a all_state" where
  "all_start n =
     \<lparr>values_list = replicate n None, remainingElementsCount = n,
      outcome = (if n = 0 then Some (Inr []) else None)\<rparr>"

definition all_settle :: "(js_error + 'a) list \<Rightarrow> 'a all_state \<Rightarrow> nat \<Rightarrow> 'a all_state" where
  "all_settle ps st i =
     (if length ps \<le> i then st
      else case ps ! i of
        Inl e \<Rightarrow> (if outcome st = None then st\<lparr>outcome := Some (Inl e)\<rparr> else st)
      | Inr v \<Rightarrow>
          (if values_list st ! i \<noteq> None then st
           else
             let vs = (values_list st)[i := Some v];
                 r = remainingElementsCount st - 1
             in st\<lparr>values_list := vs, remainingElementsCount := r,
                   outcome :=
                     (if r = 0 \<and> outcome st = None
                      then map_option Inr (those vs) else outcome st)\<rparr>))"

text \<open>
  \<open>ps\<close> lists how each promise settles (\<open>Inl\<close> rejected, \<open>Inr\<close> fulfilled) and
  \<open>order\<close> lists the indices in the order in which they settle.
\<close>

definition promise_all :: "(js_error + 'a) list \<Rightarrow> nat list \<Rightarrow> (js_error + 'a list) option" where
  "promise_all ps order = outcome (foldl (all_settle ps) (all_start (length ps)) order)"

text \<open>
  \<^verbatim>\<open>diseaseDataArray.map(data => this.generateCropAdvice(data))\<close> starts one call per
  element; \<open>envs i\<close> is what the call for element \<open>i\<close> obtains from outside.
\<close>

definition generateBatchAdvice ::
  "LLMService \<Rightarrow> (nat \<Rightarrow> js_env) \<Rightarrow> nat list \<Rightarrow> DetectionInput list
     \<Rightarrow> (js_error + AdviceResult list) option" where
  "generateBatchAdvice this envs order diseaseDataArray =
     promise_all
       (map (\<lambda>(i, data). generateCropAdvice this (envs i) data)
          (enumerate 0 diseaseDataArray))
       order"


section \<open>What a section pattern extracts, without the matcher\<close>

text \<open>
  The definitions of this section are not part of the program. They describe the
  result of the six patterns by plain recursion over the text, and the theorems
  below prove that the matcher computes exactly this.

  \<open>find_after l t\<close> is the text that follows the first place of \<open>t\<close> where the
  literal \<open>l\<close> matches; \<open>until bd s\<close> is \<open>s\<close> up to the first place where \<open>bd\<close>
  holds of what remains.
\<close>

fun find_after :: "js_string \<Rightarrow> js_string \<Rightarrow> js_string option" where
  "find_after l [] = (if chars_match l [] then Some [] else None)"
| "find_after l (x # xs) =
     (if chars_match l (x # xs) then Some (drop (length l) (x # xs)) else find_after l xs)"

fun until :: "(js_string \<Rightarrow> bool) \<Rightarrow> js_string \<Rightarrow> js_string" where
  "until bd [] = []"
| "until bd (x # xs) = (if bd (x # xs) then [] else x # until bd xs)"

definition boundary :: "js_string \<Rightarrow> js_string \<Rightarrow> bool" where
  "boundary nxt s \<longleftrightarrow> chars_match blank_line s \<or> chars_match nxt s \<or> s = []"

definition last_boundary :: "js_string \<Rightarrow> bool" where
  "last_boundary s \<longleftrightarrow> chars_match blank_line s \<or> s = []"

text \<open>
  The capture of group 1 when the label has matched and \<open>rest\<close> follows it: the
  whitespace after the label is skipped, the first character after it is taken
  whatever stands there, and the text runs on to the next boundary. When only
  whitespace follows the label, its last character is the capture; when nothing
  follows, there is no match.
\<close>

definition capture_of :: "(js_string \<Rightarrow> bool) \<Rightarrow> js_string \<Rightarrow> js_string option" where
  "capture_of bd rest =
     (case dropWhile is_ws rest of
        x # xs \<Rightarrow> Some (x # until bd xs)
      | [] \<Rightarrow> (if rest = [] then None else Some [last rest]))"

definition section_text :: "js_string \<Rightarrow> (js_string \<Rightarrow> bool) \<Rightarrow> js_string \<Rightarrow> js_string \<Rightarrow> js_string" where
  "section_text l bd fallback t =
     (case find_after l t of
        None \<Rightarrow> fallback
      | Some rest \<Rightarrow> (case capture_of bd rest of None \<Rightarrow> fallback | Some c \<Rightarrow> trim c))"

text \<open>The six fields with their labels, boundaries and fallback strings, as a table.\<close>

datatype field = Cause | Symptoms | Immediate | Chemical | Organic | Prevention

fun label_of :: "field \<Rightarrow> js_string" where
  "label_of Cause = js ''CAUSE:''"
| "label_of Symptoms = js ''SYMPTOMS:''"
| "label_of Immediate = js ''IMMEDIATE:''"
| "label_of Chemical = js ''CHEMICAL:''"
| "label_of Organic = js ''ORGANIC:''"
| "label_of Prevention = js ''PREVENTION:''"

fun boundary_of :: "field \<Rightarrow> js_string \<Rightarrow> bool" where
  "boundary_of Cause = boundary (js ''SYMPTOMS:'')"
| "boundary_of Symptoms = boundary (js ''IMMEDIATE:'')"
| "boundary_of Immediate = boundary (js ''CHEMICAL:'')"
| "boundary_of Chemical = boundary (js ''ORGANIC:'')"
| "boundary_of Organic = boundary (js ''PREVENTION:'')"
| "boundary_of Prevention = last_boundary"

fun fallback_of :: "field \<Rightarrow> js_string" where
  "fallback_of Cause = js ''Unable to determine cause''"
| "fallback_of Symptoms = js ''Unable to determine symptoms''"
| "fallback_of Immediate = js ''Consult agricultural expert''"
| "fallback_of Chemical = js ''Consult local agriculture office''"
| "fallback_of Organic = js ''Neem oil spray recommended''"
| "fallback_of Prevention = js ''Maintain proper plant hygiene''"

fun field_of :: "field \<Rightarrow> 'a advice_scheme \<Rightarrow> js_string" where
  "field_of Cause a = cause a"
| "field_of Symptoms a = symptoms a"
| "field_of Immediate a = immediate a"
| "field_of Chemical a = chemical a"
| "field_of Organic a = organic a"
| "field_of Prevention a = prevention a"

text \<open>A label occurs in a text, in any mixture of upper and lower case.\<close>

fun contains_label :: "js_string \<Rightarrow> js_string \<Rightarrow> bool" where
  "contains_label l [] = chars_match l []"
| "contains_label l (x # xs) = (chars_match l (x # xs) \<or> contains_label l xs)"

text \<open>
  The parsing contract in the words of the specification: the text that follows the
  label, up to but not including a blank line, the next label or the end of the
  text, trimmed.
\<close>

definition spec_extract :: "field \<Rightarrow> js_string \<Rightarrow> js_string option" where
  "spec_extract f t =
     map_option (\<lambda>rest. trim (until (boundary_of f) rest)) (find_after (label_of f) t)"

text \<open>
  A reply contains the labels \<open>ls\<close> in this order with content between them: each
  label is found after the one before it, and the text between two labels, and
  after the last one, is more than whitespace.
\<close>

fun then_sections :: "js_string list \<Rightarrow> js_string \<Rightarrow> bool" where
  "then_sections [] rest = (trim rest \<noteq> [])"
| "then_sections (l # ls) rest =
     (trim (until (chars_match l) rest) \<noteq> [] \<and>
      (case find_after l rest of None \<Rightarrow> False | Some r \<Rightarrow> then_sections ls r))"

definition six_sections_in_order :: "js_string \<Rightarrow> bool" where
  "six_sections_in_order t =
     (case find_after (label_of Cause) t of
        None \<Rightarrow> False
      | Some r \<Rightarrow> then_sections (map label_of [Symptoms, Immediate, Chemical, Organic, Prevention]) r)"


section \<open>Example inputs\<close>

text \<open>
  A detection record, an environment in which the generative call returns a given
  \<^verbatim>\<open>response.text\<close>, and one in which the call throws a given error.
\<close>

text \<open>The binary64 values nearest to 0.93 and to 0.87, and the number 0.\<close>

definition number_0_93 :: js_number where
  "number_0_93 = \<lparr>mantissa = 8376695306909123, exponent = - 53\<rparr>"

definition number_0_87 :: js_number where
  "number_0_87 = \<lparr>mantissa = 7836263351624663, exponent = - 53\<rparr>"

definition number_0 :: js_number where
  "number_0 = \<lparr>mantissa = 0, exponent = 0\<rparr>"

definition tomato :: DetectionInput where
  "tomato = \<lparr>DetectionInput.crop = js ''Tomato'', DetectionInput.disease = js ''Early Blight'',
     DetectionInput.severity = js ''medium'', DetectionInput.confidence = number_0_93\<rparr>"

definition potato :: DetectionInput where
  "potato = \<lparr>DetectionInput.crop = js ''Potato'', DetectionInput.disease = js ''Late Blight'',
     DetectionInput.severity = js ''high'', DetectionInput.confidence = number_0_87\<rparr>"

definition env_reply :: "js_text \<Rightarrow> js_env" where
  "env_reply txt =
     \<lparr>generateContent = (\<lambda>req. Inr \<lparr>response_text = txt\<rparr>),
      toISOString_now = js ''2026-01-01T00:00:00.000Z''\<rparr>"

definition env_throw :: "js_error \<Rightarrow> js_env" where
  "env_throw e =
     \<lparr>generateContent = (\<lambda>req. Inl e),
      toISOString_now = js ''2026-01-01T00:00:00.000Z''\<rparr>"

text \<open>
  Two batches of calls: one in which every call returns the reply "CAUSE: rust", and
  one in which the call for the second element fails with a quota error.
\<close>

definition rust_envs :: "nat \<Rightarrow> js_env" where
  "rust_envs i = env_reply (JString (js ''CAUSE: rust''))"

definition quota_error :: js_error where
  "quota_error = \<lparr>message = js ''quota exceeded'', status = Some 429\<rparr>"

definition second_fails :: "nat \<Rightarrow> js_env" where
  "second_fails i =
     (if i = 1 then env_throw quota_error else env_reply (JString (js ''CAUSE: rust'')))"

text \<open>A reply in the six-section format whose first label is followed by a blank line.\<close>

definition reply_blank_line :: js_string where
  "reply_blank_line = js ''CAUSE:\<newline>\<newline>Fungus.\<newline>\<newline>SYMPTOMS: Spots.\<newline>\<newline>IMMEDIATE: Prune.\<newline>\<newline>CHEMICAL: Copper.\<newline>\<newline>ORGANIC: Neem.\<newline>\<newline>PREVENTION: Rotate.''"

text \<open>A reply whose first label is followed by three line breaks.\<close>

definition reply_two_blank_lines :: js_string where
  "reply_two_blank_lines = js ''CAUSE:\<newline>\<newline>\<newline>Fungus.\<newline>\<newline>SYMPTOMS: Spots.''"

text \<open>A reply that stops after the label of its last section.\<close>

definition reply_cut_short :: js_string where
  "reply_cut_short = js ''CAUSE: Fungus.\<newline>\<newline>PREVENTION:\<newline>''"

text \<open>
  The state of \<^verbatim>\<open>Promise.all\<close> once the promises with indices in \<open>P\<close> have
  settled and none of them was rejected. Not part of the program: the invariant of
  the proofs about \<open>promise_all\<close>.
\<close>

definition settled_state :: "(js_error + 'a) list \<Rightarrow> nat list \<Rightarrow> 'a all_state" where
  "settled_state ps P =
     \<lparr>values_list = map (\<lambda>i. if i \<in> set P then Some (projr (ps ! i)) else None) [0..<length ps],
      remainingElementsCount = card ({..<length ps} - set P),
      outcome = (if {..<length ps} \<subseteq> set P then Some (Inr (map projr ps)) else None)\<rparr>"

section \<open>The matcher computes the direct description\<close>

lemma chars_match_length: "chars_match l s \<Longrightarrow> length l \<le> length s"
  by (induction l s rule: chars_match.induct) (auto split: if_splits)

lemma star_greedy_hd: "\<exists>ys. star_greedy p s = dropWhile p s # ys"
  by (induction s) auto

lemma star_greedy_all:
  "s \<noteq> [] \<Longrightarrow> \<forall>c\<in>set s. p c \<Longrightarrow> \<exists>ys. star_greedy p s = [] # [last s] # ys"
proof (induction s)
  case Nil then show ?case by simp
next
  case (Cons x xs)
  show ?case
  proof (cases xs)
    case Nil with Cons.prems show ?thesis by simp
  next
    case (Cons y ys)
    with Cons.IH Cons.prems obtain zs where "star_greedy p xs = [] # [last xs] # zs" by auto
    with Cons Cons.prems show ?thesis by simp
  qed
qed

lemma lazy_then_look:
  assumes look: "\<And>c s. matcher look (c, s) = (if bd s then [(c, s)] else [])" and e: "bd []"
    and p: "\<And>c. p c"
  shows "\<exists>ys. concat (map (matcher look)
      (map (\<lambda>s'. (Some (take (length (pre @ xs) - length s') (pre @ xs)), s')) (star_lazy p xs)))
     = (Some (pre @ until bd xs), drop (length (until bd xs)) xs) # ys"
proof (induction xs arbitrary: pre)
  case Nil
  show ?case using look e by simp
next
  case (Cons x xs)
  show ?case
  proof (cases "bd (x # xs)")
    case True
    then show ?thesis using look by simp
  next
    case False
    from Cons.IH[of "pre @ [x]"] obtain ys where
      "concat (map (matcher look)
        (map (\<lambda>s'. (Some (take (length ((pre @ [x]) @ xs) - length s') ((pre @ [x]) @ xs)), s')) (star_lazy p xs)))
       = (Some ((pre @ [x]) @ until bd xs), drop (length (until bd xs)) xs) # ys" by blast
    moreover have "star_lazy p (x # xs) = (x # xs) # star_lazy p xs" using p by simp
    ultimately show ?thesis using False look by (simp del: star_lazy.simps)
  qed
qed

lemma group_then_look:
  assumes look: "\<And>c s. matcher look (c, s) = (if bd s then [(c, s)] else [])" and e: "bd []"
  shows "\<exists>s' ys. matcher (Seq (Group (PlusLazy Dot)) look) (cap, x # xs)
           = (Some (x # until bd xs), s') # ys"
  using lazy_then_look[OF look e, of "in_class Dot" "[x]" xs] by (auto simp: comp_def)

lemma group_then_look_Nil:
  "matcher (Seq (Group (PlusLazy Dot)) look) (cap, []) = []"
  by simp

lemma spaces_then:
  "matcher (Seq (Star Space) g) (cap, rest)
     = concat (map (\<lambda>s'. matcher g (cap, s')) (star_greedy is_ws rest))"
proof -
  have "in_class Space = is_ws" by (rule ext) simp
  then show ?thesis by (simp add: comp_def)
qed

lemma spaces_group_look:
  assumes look: "\<And>c s. matcher look (c, s) = (if bd s then [(c, s)] else [])" and e: "bd []"
  shows "case capture_of bd rest of
           None \<Rightarrow> matcher (Seq (Star Space) (Seq (Group (PlusLazy Dot)) look)) (cap, rest) = []
         | Some c \<Rightarrow> (\<exists>s' ys. matcher (Seq (Star Space) (Seq (Group (PlusLazy Dot)) look)) (cap, rest)
                         = (Some c, s') # ys)"
proof -
  define g where "g = Seq (Group (PlusLazy Dot)) look"
  have gN: "matcher g (cap, []) = []" unfolding g_def by (rule group_then_look_Nil)
  have gC: "\<And>x xs. \<exists>s' ys. matcher g (cap, x # xs) = (Some (x # until bd xs), s') # ys"
    unfolding g_def by (rule group_then_look[OF look e])
  have "case capture_of bd rest of
           None \<Rightarrow> matcher (Seq (Star Space) g) (cap, rest) = []
         | Some c \<Rightarrow> (\<exists>s' ys. matcher (Seq (Star Space) g) (cap, rest) = (Some c, s') # ys)"
  proof (cases "dropWhile is_ws rest")
    case (Cons x xs)
    obtain zs where zs: "star_greedy is_ws rest = (x # xs) # zs"
      using star_greedy_hd[of is_ws rest] Cons by auto
    obtain s' ys where "matcher g (cap, x # xs) = (Some (x # until bd xs), s') # ys"
      using gC by blast
    then show ?thesis using Cons zs by (simp add: capture_of_def spaces_then del: matcher.simps)
  next
    case Nil
    show ?thesis
    proof (cases rest)
      case Nil
      then show ?thesis using gN by (simp add: capture_of_def spaces_then del: matcher.simps)
    next
      case (Cons y ys)
      have allws: "\<forall>c\<in>set rest. is_ws c" using \<open>dropWhile is_ws rest = []\<close>
        by (simp add: dropWhile_eq_Nil_conv)
      obtain zs where zs: "star_greedy is_ws rest = [] # [last rest] # zs"
        using star_greedy_all[of rest is_ws] allws Cons by auto
      obtain s' ws where "matcher g (cap, [last rest]) = (Some (last rest # until bd []), s') # ws"
        using gC by blast
      then show ?thesis using Cons zs gN \<open>dropWhile is_ws rest = []\<close>
        by (simp add: capture_of_def spaces_then del: matcher.simps)
    qed
  qed
  then show ?thesis unfolding g_def .
qed

lemma label_then:
  "matcher (Seq (Chars l) r) (cap, s)
     = (if chars_match l s then matcher r (cap, drop (length l) s) else [])"
  by simp

lemma regexp_exec_short:
  assumes "\<And>cap s. \<not> chars_match l s \<Longrightarrow> matcher re (cap, s) = []"
    and "length t < length l"
  shows "regexp_exec re t = None"
  using assms(2)
proof (induction t)
  case Nil
  then have "\<not> chars_match l []" using chars_match_length by fastforce
  then show ?case using assms(1) by simp
next
  case (Cons x xs)
  then have "\<not> chars_match l (x # xs)" using chars_match_length by fastforce
  then show ?case using assms(1) Cons by simp
qed

lemma regexp_exec_pattern:
  assumes look: "\<And>c s. matcher look (c, s) = (if bd s then [(c, s)] else [])" and e: "bd []"
    and l: "l \<noteq> []"
  shows "\<exists>s'. regexp_exec (Seq (Chars l) (Seq (Star Space) (Seq (Group (PlusLazy Dot)) look))) t
     = (case find_after l t of None \<Rightarrow> None
        | Some rest \<Rightarrow> (case capture_of bd rest of None \<Rightarrow> None | Some c \<Rightarrow> Some (Some c, s' )))"
proof -
  define tl_re where "tl_re = Seq (Star Space) (Seq (Group (PlusLazy Dot)) look)"
  define re where "re = Seq (Chars l) tl_re"
  have m: "\<And>cap s. matcher re (cap, s) = (if chars_match l s then matcher tl_re (cap, drop (length l) s) else [])"
    unfolding re_def by (rule label_then)
  have nomatch: "\<And>cap s. \<not> chars_match l s \<Longrightarrow> matcher re (cap, s) = []" by (simp add: m)
  have t: "\<And>cap rest. case capture_of bd rest of
           None \<Rightarrow> matcher tl_re (cap, rest) = []
         | Some c \<Rightarrow> (\<exists>s' ys. matcher tl_re (cap, rest) = (Some c, s') # ys)"
    unfolding tl_re_def by (rule spaces_group_look[OF look e])
  have "\<exists>s'. regexp_exec re t
     = (case find_after l t of None \<Rightarrow> None
        | Some rest \<Rightarrow> (case capture_of bd rest of None \<Rightarrow> None | Some c \<Rightarrow> Some (Some c, s')))"
  proof (induction t)
    case Nil
    have "\<not> chars_match l []" using l by (cases l) auto
    then show ?case using nomatch by simp
  next
    case (Cons x xs)
    show ?case
    proof (cases "chars_match l (x # xs)")
      case False
      then show ?thesis using Cons nomatch by simp
    next
      case True
      let ?rest = "drop (length l) (x # xs)"
      show ?thesis
      proof (cases "capture_of bd ?rest")
        case (Some c)
        then obtain s' ys where "matcher tl_re (None, ?rest) = (Some c, s') # ys"
          using t[of None ?rest] by auto
        then show ?thesis using True Some m by simp
      next
        case None
        then have "matcher tl_re (None, ?rest) = []" using t[of None ?rest] by simp
        moreover have "?rest = []" using None by (auto simp: capture_of_def split: list.splits if_splits)
        then have "length xs < length l" by auto
        then have "regexp_exec re xs = None" using regexp_exec_short[of l re xs] nomatch by blast
        ultimately show ?thesis using True None m by simp
      qed
    qed
  qed
  then show ?thesis unfolding re_def tl_re_def .
qed

lemma match_or_pattern:
  assumes look: "\<And>c s. matcher look (c, s) = (if bd s then [(c, s)] else [])" and e: "bd []"
    and l: "l \<noteq> []"
  shows "match_or (Seq (Chars l) (Seq (Star Space) (Seq (Group (PlusLazy Dot)) look))) fallback t
     = Inr (section_text l bd fallback t)"
proof -
  obtain s' where "regexp_exec (Seq (Chars l) (Seq (Star Space) (Seq (Group (PlusLazy Dot)) look))) t
     = (case find_after l t of None \<Rightarrow> None
        | Some rest \<Rightarrow> (case capture_of bd rest of None \<Rightarrow> None | Some c \<Rightarrow> Some (Some c, s' )))"
    using regexp_exec_pattern[OF look e l] by blast
  then show ?thesis
    by (simp add: match_or_def section_text_def split: option.splits)
qed

lemma look_section:
  "matcher (Lookahead (Alt (Chars blank_line) (Alt (Chars n) EndAnchor))) (c, s)
     = (if boundary n s then [(c, s)] else [])"
  by (simp add: boundary_def)

lemma look_last:
  "matcher (Lookahead (Alt (Chars blank_line) EndAnchor)) (c, s)
     = (if last_boundary s then [(c, s)] else [])"
  by (simp add: last_boundary_def)

lemma js_not_Nil: "l \<noteq> [] \<Longrightarrow> js l \<noteq> []"
  by (simp add: js_def)

lemma match_or_section:
  "label \<noteq> [] \<Longrightarrow> match_or (section_re label nxt) fallback t
     = Inr (section_text (js label) (boundary (js nxt)) fallback t)"
  unfolding section_re_def
  by (rule match_or_pattern[OF look_section]) (simp_all add: boundary_def js_not_Nil)

lemma match_or_last_section:
  "label \<noteq> [] \<Longrightarrow> match_or (last_section_re label) fallback t
     = Inr (section_text (js label) last_boundary fallback t)"
  unfolding last_section_re_def
  by (rule match_or_pattern[OF look_last]) (simp_all add: last_boundary_def js_not_Nil)

lemma parse_string:
  "parseAdviceResponse (JString t) =
     Inr \<lparr>cause = section_text (label_of Cause) (boundary_of Cause) (fallback_of Cause) t,
          symptoms = section_text (label_of Symptoms) (boundary_of Symptoms) (fallback_of Symptoms) t,
          immediate = section_text (label_of Immediate) (boundary_of Immediate) (fallback_of Immediate) t,
          chemical = section_text (label_of Chemical) (boundary_of Chemical) (fallback_of Chemical) t,
          organic = section_text (label_of Organic) (boundary_of Organic) (fallback_of Organic) t,
          prevention = section_text (label_of Prevention) (boundary_of Prevention) (fallback_of Prevention) t\<rparr>"
  by (simp add: parseAdviceResponse_def try_parse_def bind_err_def cause_re_def symptoms_re_def
      immediate_re_def chemical_re_def organic_re_def prevention_re_def
      match_or_section match_or_last_section)

lemma parse_field:
  "parseAdviceResponse (JString t) = Inr a \<Longrightarrow>
     field_of f a = section_text (label_of f) (boundary_of f) (fallback_of f) t"
  by (cases f) (auto simp: parse_string)

section \<open>Promise.all\<close>

lemma those_map_Some: "those (map (\<lambda>i. Some (f i)) xs) = Some (map f xs)"
  by (induction xs) auto

lemma settled_state_Nil: "all_start (length ps) = settled_state ps []"
  by (auto simp: all_start_def settled_state_def map_replicate_const lessThan_empty_iff)

lemma all_settle_fulfilled:
  assumes i: "i < length ps" and v: "ps ! i = Inr v"
  shows "all_settle ps (settled_state ps P) i = settled_state ps (P @ [i])"
proof (cases "i \<in> set P")
  case True
  then have "set (P @ [i]) = set P" by auto
  then have "settled_state ps (P @ [i]) = settled_state ps P" by (simp add: settled_state_def)
  moreover have "values_list (settled_state ps P) ! i \<noteq> None"
    using True i by (simp add: settled_state_def)
  then have "all_settle ps (settled_state ps P) i = settled_state ps P"
    using i v by (simp add: all_settle_def)
  ultimately show ?thesis by simp
next
  case False
  let ?n = "length ps"
  have vals: "(map (\<lambda>j. if j \<in> set P then Some (projr (ps ! j)) else None) [0..<?n])[i := Some v]
      = map (\<lambda>j. if j \<in> set (P @ [i]) then Some (projr (ps ! j)) else None) [0..<?n]"
    using i v by (auto intro!: nth_equalityI simp: nth_list_update)
  have sets: "{..<?n} - set (P @ [i]) = ({..<?n} - set P) - {i}" by auto
  have mem: "i \<in> {..<?n} - set P" using i False by simp
  have card: "card ({..<?n} - set (P @ [i])) = card ({..<?n} - set P) - 1"
    using mem by (simp add: sets)
  have pos: "0 < card ({..<?n} - set P)" using mem by (metis card_gt_0_iff empty_iff finite_Diff finite_lessThan)
  have c0: "(card ({..<?n} - set (P @ [i])) = 0) = ({..<?n} \<subseteq> set (P @ [i]))"
    by (simp del: set_append)
  have zero: "card ({..<?n} - set P) - 1 = 0 \<longleftrightarrow> {..<?n} \<subseteq> set (P @ [i])"
    unfolding card[symmetric] by (rule c0)
  have notall: "\<not> {..<?n} \<subseteq> set P" using mem by blast
  have full: "{..<?n} \<subseteq> set (P @ [i]) \<Longrightarrow>
      those (map (\<lambda>j. if j \<in> set (P @ [i]) then Some (projr (ps ! j)) else None) [0..<?n])
        = Some (map projr ps)"
  proof -
    assume a: "{..<?n} \<subseteq> set (P @ [i])"
    have A: "map (\<lambda>j. if j \<in> set (P @ [i]) then Some (projr (ps ! j)) else None) [0..<?n]
        = map (\<lambda>j. Some (projr (ps ! j))) [0..<?n]"
      using a by (intro map_cong) auto
    have B: "map (\<lambda>j. projr (ps ! j)) [0..<?n] = map projr ps"
      by (auto intro!: nth_equalityI)
    show ?thesis unfolding A those_map_Some B by (rule refl)
  qed
  have before: "values_list (settled_state ps P) ! i = None"
    using i False by (simp add: settled_state_def)
  define st where "st = settled_state ps P"
  define r where "r = remainingElementsCount st - 1"
  define vs where "vs = (values_list st)[i := Some v]"
  have r_eq: "r = card ({..<?n} - set (P @ [i]))"
    unfolding r_def st_def using card by (simp add: settled_state_def del: set_append)
  have r0: "(r = 0) = ({..<?n} \<subseteq> set (P @ [i]))"
    unfolding r_eq by (rule c0)
  have vs_eq: "vs = map (\<lambda>j. if j \<in> set (P @ [i]) then Some (projr (ps ! j)) else None) [0..<?n]"
    unfolding vs_def st_def using vals by (simp add: settled_state_def del: set_append)
  have pend: "outcome st = None" unfolding st_def using notall by (simp add: settled_state_def)
  have step: "all_settle ps st i =
      st\<lparr>values_list := vs, remainingElementsCount := r,
         outcome := (if r = 0 then map_option Inr (those vs) else None)\<rparr>"
    using i v before pend unfolding st_def[symmetric]
    by (simp add: all_settle_def Let_def vs_def r_def)
  have "st\<lparr>values_list := vs, remainingElementsCount := r,
         outcome := (if r = 0 then map_option Inr (those vs) else None)\<rparr>
       = settled_state ps (P @ [i])"
  proof (cases "{..<?n} \<subseteq> set (P @ [i])")
    case True
    then have "r = 0" using r0 by simp
    moreover have "those vs = Some (map projr ps)" unfolding vs_eq using full True by simp
    ultimately show ?thesis using True
      by (simp add: settled_state_def st_def vs_eq[symmetric] r_eq[symmetric] del: set_append)
  next
    case False
    then have "r \<noteq> 0" using r0 by simp
    then show ?thesis using False
      by (simp add: settled_state_def st_def vs_eq[symmetric] r_eq[symmetric] del: set_append)
  qed
  then show ?thesis using step unfolding st_def by simp
qed

lemma all_settle_outside:
  "length ps \<le> i \<Longrightarrow> all_settle ps (settled_state ps P) i = settled_state ps (P @ [i])"
proof -
  assume a: "length ps \<le> i"
  have "{..<length ps} - set (P @ [i]) = {..<length ps} - set P" using a by auto
  moreover have "{..<length ps} \<subseteq> set (P @ [i]) \<longleftrightarrow> {..<length ps} \<subseteq> set P" using a by auto
  moreover have "map (\<lambda>j. if j \<in> set (P @ [i]) then Some (projr (ps ! j)) else None) [0..<length ps]
     = map (\<lambda>j. if j \<in> set P then Some (projr (ps ! j)) else None) [0..<length ps]"
    using a by (intro map_cong) auto
  ultimately show ?thesis using a by (simp add: all_settle_def settled_state_def del: set_append)
qed

lemma foldl_fulfilled:
  assumes "\<forall>i\<in>set P. i < length ps \<longrightarrow> \<not> isl (ps ! i)"
  shows "foldl (all_settle ps) (all_start (length ps)) P = settled_state ps P"
  using assms
proof (induction P rule: rev_induct)
  case Nil
  show ?case by (simp add: settled_state_Nil)
next
  case (snoc i P)
  then have IH: "foldl (all_settle ps) (all_start (length ps)) P = settled_state ps P" by simp
  show ?case
  proof (cases "i < length ps")
    case True
    then obtain v where "ps ! i = Inr v" using snoc.prems by (cases "ps ! i") auto
    then show ?thesis using IH True all_settle_fulfilled by simp
  next
    case False
    then show ?thesis using IH all_settle_outside[of ps i P] by (simp add: not_less)
  qed
qed

lemma all_settle_keeps_outcome:
  "outcome st = Some r \<Longrightarrow> outcome (all_settle ps st i) = Some r"
  by (simp add: all_settle_def Let_def split: sum.splits)

lemma foldl_keeps_outcome:
  "outcome st = Some r \<Longrightarrow> outcome (foldl (all_settle ps) st Q) = Some r"
  by (induction Q arbitrary: st) (simp_all add: all_settle_keeps_outcome)

lemma promise_all_fulfilled:
  assumes "\<forall>i<length ps. \<not> isl (ps ! i)" and "{..<length ps} \<subseteq> set order"
  shows "promise_all ps order = Some (Inr (map projr ps))"
proof -
  have "foldl (all_settle ps) (all_start (length ps)) order = settled_state ps order"
    using assms(1) by (intro foldl_fulfilled) auto
  then show ?thesis using assms(2) by (simp add: promise_all_def settled_state_def)
qed

lemma promise_all_rejected:
  assumes "find (\<lambda>i. i < length ps \<and> isl (ps ! i)) order = Some k"
  shows "promise_all ps order = Some (Inl (projl (ps ! k)))"
proof -
  let ?bad = "\<lambda>i. i < length ps \<and> isl (ps ! i)"
  from assms obtain j where j: "j < length order" "?bad (order ! j)" "k = order ! j"
      "\<forall>m<j. \<not> ?bad (order ! m)"
    by (auto simp: find_Some_iff)
  define P where "P = take j order"
  define Q where "Q = drop (Suc j) order"
  have ord: "order = P @ k # Q" unfolding P_def Q_def using j by (simp add: id_take_nth_drop)
  have good: "\<forall>i\<in>set P. i < length ps \<longrightarrow> \<not> isl (ps ! i)"
  proof
    fix i assume "i \<in> set P"
    then obtain m where "m < j" "i = order ! m" unfolding P_def using j(1)
      by (auto simp: in_set_conv_nth)
    then have "\<not> ?bad i" using j(4) by simp
    then show "i < length ps \<longrightarrow> \<not> isl (ps ! i)" by simp
  qed
  have kbad: "k < length ps" "isl (ps ! k)" using j by simp_all
  have "k \<notin> set P" using good kbad by (cases "ps ! k") auto
  then have pending: "outcome (settled_state ps P) = None" using kbad by (auto simp: settled_state_def)
  obtain e where e: "ps ! k = Inl e" using kbad by (cases "ps ! k") auto
  have "outcome (all_settle ps (settled_state ps P) k) = Some (Inl e)"
    using kbad e pending by (simp add: all_settle_def)
  then have "outcome (foldl (all_settle ps) (all_settle ps (settled_state ps P) k) Q) = Some (Inl e)"
    by (rule foldl_keeps_outcome)
  then show ?thesis using e foldl_fulfilled[OF good] by (simp add: promise_all_def ord)
qed

lemma batch_promises:
  "map (\<lambda>(i, data). generateCropAdvice this (envs i) data) (enumerate 0 ds)
     = map (\<lambda>i. generateCropAdvice this (envs i) (ds ! i)) [0..<length ds]"
  by (auto intro!: nth_equalityI simp: nth_enumerate_eq)


section \<open>Claims about parseAdviceResponse\<close>


text \<open>
  \<open>contains_label\<close> and \<open>chars_match\<close> in words: the text can be cut so that what
  follows the cut begins with the label, compared after canonicalisation.
\<close>

lemma contains_label_iff:
  "contains_label l t \<longleftrightarrow> (\<exists>pre post. t = pre @ post \<and> chars_match l post)"
proof (induction t)
  case Nil
  then show ?case by simp
next
  case (Cons x xs)
  show ?case
  proof
    assume "contains_label l (x # xs)"
    then consider "chars_match l (x # xs)" | "contains_label l xs" by auto
    then show "\<exists>pre post. x # xs = pre @ post \<and> chars_match l post"
    proof cases
      case 1
      then have "x # xs = [] @ (x # xs) \<and> chars_match l (x # xs)" by simp
      then show ?thesis by blast
    next
      case 2
      then obtain pre post where "xs = pre @ post" "chars_match l post" using Cons by auto
      then have "x # xs = (x # pre) @ post \<and> chars_match l post" by simp
      then show ?thesis by blast
    qed
  next
    assume "\<exists>pre post. x # xs = pre @ post \<and> chars_match l post"
    then obtain pre post where pp: "x # xs = pre @ post" "chars_match l post" by auto
    show "contains_label l (x # xs)"
    proof (cases pre)
      case Nil
      with pp have "chars_match l (x # xs)" by simp
      then show ?thesis by simp
    next
      case (Cons y ys)
      then have "xs = ys @ post" using pp by simp
      then show ?thesis using pp Cons.IH by auto
    qed
  qed
qed

lemma chars_match_iff:
  "chars_match l s \<longleftrightarrow>
     length l \<le> length s \<and> map canonicalize (take (length l) s) = map canonicalize l"
  by (induction l s rule: chars_match.induct) auto

lemmas eval_defs = js_def section_text_def capture_of_def boundary_def last_boundary_def
  blank_line_def canonicalize_def trim_def is_ws_def

text \<open>
  Claim C10. For every input that is a string (the empty string, a string without
  any label, arbitrary text), parseAdviceResponse returns normally: the result is an
  object with the six fields cause, symptoms, immediate, chemical, organic and
  prevention, each a string. In the model a thrown error is \<open>Inl\<close>, and a returned
  object is \<open>Inr\<close> of a record of six strings.
\<close>

theorem parse_string_returns: "\<exists>a. parseAdviceResponse (JString t) = Inr a"
  by (simp add: parse_string)

text \<open>
  Claim C5. Parsing does not throw because a label is not found in a string: it
  throws if and only if the text operation itself fails, which is when the input is
  \<^verbatim>\<open>undefined\<close> or \<^verbatim>\<open>null\<close> instead of a string, and what it throws then is the
  error with the message "Failed to parse AI response".
\<close>

theorem parse_throws_iff:
  "parseAdviceResponse v = Inl e \<longleftrightarrow>
     (v = JUndefined \<or> v = JNull) \<and> e = new_Error (js ''Failed to parse AI response'')"
proof (cases v)
  case (JString t)
  then show ?thesis by (simp add: parse_string)
next
  case JUndefined
  then show ?thesis by (auto simp: parseAdviceResponse_def try_parse_def)
next
  case JNull
  then show ?thesis by (auto simp: parseAdviceResponse_def try_parse_def)
qed



lemma trim_ws_Cons: "is_ws y \<Longrightarrow> trim (y # u) = trim u"
  by (simp add: trim_def)

lemma until_content:
  "trim (until bd rest) \<noteq> [] \<Longrightarrow>
     \<exists>x xs. dropWhile is_ws rest = x # xs \<and> trim (until bd rest) = trim (x # until bd xs)"
proof (induction rest)
  case Nil
  then show ?case by (simp add: trim_def)
next
  case (Cons y ys)
  then have nb: "\<not> bd (y # ys)" by (auto simp: trim_def split: if_splits)
  show ?case
  proof (cases "is_ws y")
    case True
    then have "trim (until bd ys) \<noteq> []" using Cons.prems nb by (simp add: trim_ws_Cons)
    then show ?thesis using Cons.IH True nb by (simp add: trim_ws_Cons)
  next
    case False
    then show ?thesis using nb by simp
  qed
qed

text \<open>
  Claim C4, as the code has it. After the first occurrence of a label the pattern
  skips all whitespace, a blank line included. The field is the text that starts
  at the first character that is not whitespace, which is taken whatever begins
  there, and runs up to the next boundary after that character (blank line, the
  label that follows in the fixed order of the six, end of text), trimmed. The
  claim reads the field as the text between the label and the next boundary,
  trimmed, which is \<open>spec_extract\<close>: the field equals it whenever it is not empty,
  that is, whenever something other than whitespace stands between the label and
  the next boundary. No other condition on the reply is needed.
\<close>

theorem field_is_text_before_boundary:
  assumes "parseAdviceResponse (JString t) = Inr a"
  shows "(\<forall>rest x xs. find_after (label_of f) t = Some rest \<and> dropWhile is_ws rest = x # xs \<longrightarrow>
            field_of f a = trim (x # until (boundary_of f) xs)) \<and>
         (\<forall>v. spec_extract f t = Some v \<and> v \<noteq> [] \<longrightarrow> field_of f a = v)"
proof (intro conjI allI impI)
  fix rest x xs
  assume "find_after (label_of f) t = Some rest \<and> dropWhile is_ws rest = x # xs"
  then show "field_of f a = trim (x # until (boundary_of f) xs)"
    using assms by (simp add: parse_field section_text_def capture_of_def)
next
  fix v
  assume h: "spec_extract f t = Some v \<and> v \<noteq> []"
  then obtain rest where rest: "find_after (label_of f) t = Some rest"
      and v: "v = trim (until (boundary_of f) rest)"
    by (auto simp: spec_extract_def)
  with h obtain x xs where "dropWhile is_ws rest = x # xs"
      "trim (until (boundary_of f) rest) = trim (x # until (boundary_of f) xs)"
    using until_content by blast
  then show "field_of f a = v" using assms rest v
    by (simp add: parse_field section_text_def capture_of_def)
qed

theorem field_is_text_before_boundary_witness:
  "parseAdviceResponse (JString reply_two_blank_lines) =
     Inr \<lparr>cause = js ''Fungus.'', symptoms = js ''Spots.'',
          immediate = js ''Consult agricultural expert'',
          chemical = js ''Consult local agriculture office'',
          organic = js ''Neem oil spray recommended'',
          prevention = js ''Maintain proper plant hygiene''\<rparr> \<and>
   find_after (label_of Cause) reply_two_blank_lines = Some (drop 6 reply_two_blank_lines) \<and>
   dropWhile is_ws (drop 6 reply_two_blank_lines) = 70 # drop 10 reply_two_blank_lines \<and>
   trim (70 # until (boundary_of Cause) (drop 10 reply_two_blank_lines)) = js ''Fungus.'' \<and>
   spec_extract Cause reply_two_blank_lines = Some [] \<and>
   spec_extract Symptoms reply_two_blank_lines = Some (js ''Spots.'') \<and> js ''Spots.'' \<noteq> []"
proof -
  let ?a = "\<lparr>cause = js ''Fungus.'', symptoms = js ''Spots.'',
          immediate = js ''Consult agricultural expert'',
          chemical = js ''Consult local agriculture office'',
          organic = js ''Neem oil spray recommended'',
          prevention = js ''Maintain proper plant hygiene''\<rparr>"
  have p: "parseAdviceResponse (JString reply_two_blank_lines) = Inr ?a"
    by (simp add: parse_string reply_two_blank_lines_def eval_defs)
  have fa: "find_after (label_of Cause) reply_two_blank_lines = Some (drop 6 reply_two_blank_lines)"
    by (simp add: reply_two_blank_lines_def js_def canonicalize_def)
  have dw: "dropWhile is_ws (drop 6 reply_two_blank_lines) = 70 # drop 10 reply_two_blank_lines"
    by (simp add: reply_two_blank_lines_def js_def is_ws_def)
  have sc: "spec_extract Cause reply_two_blank_lines = Some []"
    by (simp add: spec_extract_def reply_two_blank_lines_def eval_defs)
  have s: "spec_extract Symptoms reply_two_blank_lines = Some (js ''Spots.'')"
    by (simp add: spec_extract_def reply_two_blank_lines_def eval_defs)
  have n: "js ''Spots.'' \<noteq> []" by (simp add: js_def)
  have "field_of Cause ?a = trim (70 # until (boundary_of Cause) (drop 10 reply_two_blank_lines))"
    using field_is_text_before_boundary[OF p, of Cause] fa dw by blast
  then have c: "trim (70 # until (boundary_of Cause) (drop 10 reply_two_blank_lines)) = js ''Fungus.''"
    by simp
  have "field_of Symptoms ?a = js ''Spots.''"
    using field_is_text_before_boundary[OF p, of Symptoms] s n by blast
  then show ?thesis using p fa dw c sc s n by blast
qed

text \<open>
  Claim C4, as it is stated, fails when the content of a section starts after a
  blank line: the pattern skips all whitespace after the label before the captured
  text begins, so the blank line right after "CAUSE:" is not a boundary for it. The
  reply below has the six labels in order with content between them; the text
  between "CAUSE:" and the next boundary is empty, and the parsed cause is
  "Fungus.".
\<close>

theorem blank_line_after_label_counterexample:
  "six_sections_in_order reply_blank_line \<and>
   spec_extract Cause reply_blank_line = Some [] \<and>
   parseAdviceResponse (JString reply_blank_line) =
     Inr \<lparr>cause = js ''Fungus.'', symptoms = js ''Spots.'', immediate = js ''Prune.'',
      chemical = js ''Copper.'', organic = js ''Neem.'', prevention = js ''Rotate.''\<rparr>"
proof -
  have "six_sections_in_order reply_blank_line"
    by (simp add: six_sections_in_order_def reply_blank_line_def eval_defs)
  moreover have "spec_extract Cause reply_blank_line = Some []"
    by (simp add: spec_extract_def reply_blank_line_def eval_defs)
  moreover have "parseAdviceResponse (JString reply_blank_line) =
     Inr \<lparr>cause = js ''Fungus.'', symptoms = js ''Spots.'', immediate = js ''Prune.'',
      chemical = js ''Copper.'', organic = js ''Neem.'', prevention = js ''Rotate.''\<rparr>"
    by (simp add: parse_string reply_blank_line_def eval_defs)
  ultimately show ?thesis by simp
qed

section \<open>Claims about the prompt\<close>

declare bit_length.simps [simp del] decimal.simps [simp del]

lemma nearest_integer_close: "\<bar>of_int (nearest_integer x) - number_value x\<bar> \<le> 1 / 2"
proof (cases "0 \<le> exponent x")
  case True
  then show ?thesis by (simp add: nearest_integer_def number_value_def)
next
  case False
  define k where "k = nat (- exponent x)"
  define v :: rat where "v = of_int (mantissa x) / 2 ^ k"
  have "(2 * mantissa x + 2 ^ k) div 2 ^ Suc k
      = \<lfloor>(of_int (2 * mantissa x + 2 ^ k) :: rat) / of_int (2 ^ Suc k)\<rfloor>"
    by (simp only: floor_divide_of_int_eq)
  also have "(of_int (2 * mantissa x + 2 ^ k) :: rat) / of_int (2 ^ Suc k) = v + 1 / 2"
    by (simp add: v_def field_simps)
  finally have n: "nearest_integer x = \<lfloor>v + 1 / 2\<rfloor>"
    using False by (simp add: nearest_integer_def k_def)
  have "number_value x = v" using False by (simp add: number_value_def v_def k_def)
  moreover have "\<bar>of_int \<lfloor>v + 1 / 2\<rfloor> - v\<bar> \<le> 1 / 2" by linarith
  ultimately show ?thesis using n by simp
qed

lemma number_value_sign: "0 \<le> number_value x \<longleftrightarrow> 0 \<le> mantissa x"
proof -
  have t: "0 \<le> of_int m * c \<longleftrightarrow> 0 \<le> m" if "0 < c" for c :: rat and m :: int
    using that by (auto simp: zero_le_mult_iff)
  have q: "0 \<le> of_int m / c \<longleftrightarrow> 0 \<le> m" if "0 < c" for c :: rat and m :: int
    using that by (auto simp: zero_le_divide_iff)
  show ?thesis
  proof (cases "0 \<le> exponent x")
    case True
    then show ?thesis using t[of "2 ^ nat (exponent x)" "mantissa x"]
      by (simp add: number_value_def)
  next
    case False
    then show ?thesis using q[of "2 ^ nat (- exponent x)" "mantissa x"]
      by (simp add: number_value_def)
  qed
qed

lemma round_ties_even_nonneg: "0 \<le> m \<Longrightarrow> 0 \<le> round_ties_even m k"
proof -
  assume "0 \<le> m"
  then have "0 \<le> m div 2 ^ k" by (simp add: pos_imp_zdiv_nonneg_iff)
  then show ?thesis by (simp add: round_ties_even_def Let_def)
qed

lemma round_binary64_nonneg: "0 \<le> m \<Longrightarrow> 0 \<le> mantissa (round_binary64 m e)"
  by (simp add: round_binary64_def Let_def round_ties_even_nonneg)

lemma nearest_integer_nonneg: "0 \<le> mantissa x \<Longrightarrow> 0 \<le> nearest_integer x"
  by (simp add: nearest_integer_def pos_imp_zdiv_nonneg_iff)

lemma times_100: "js_times number_0_93 number_100 = \<lparr>mantissa = 6544293208522752, exponent = - 46\<rparr>"
  by (simp add: js_times_def number_0_93_def number_100_def round_binary64_def bit_length.simps
      round_ties_even_def Let_def)

lemma number_value_powi: "number_value x = of_int (mantissa x) * 2 powi exponent x"
  by (simp add: number_value_def power_int_def field_simps)

lemma round_ties_even_close:
  "\<bar>(of_int (round_ties_even m k) :: rat) - of_int m / 2 ^ k\<bar> \<le> 1 / 2"
proof -
  define q where "q = m div 2 ^ k"
  define r where "r = m mod 2 ^ k"
  define f :: rat where "f = of_int r / 2 ^ k"
  have m: "m = q * 2 ^ k + r" using div_mult_mod_eq[of m "2 ^ k"] by (simp add: q_def r_def)
  have r: "0 \<le> r" "r < 2 ^ k" by (simp_all add: r_def)
  have p: "(0::rat) < 2 ^ k" by simp
  have v: "(of_int m :: rat) / 2 ^ k = of_int q + f"
    using p by (simp add: m f_def field_simps)
  have cmp: "f < 1 / 2 \<longleftrightarrow> 2 * r < 2 ^ k"
  proof -
    have "f < 1 / 2 \<longleftrightarrow> (of_int (2 * r) :: rat) < of_int (2 ^ k)"
      using p by (simp add: f_def field_simps)
    then show ?thesis by (simp only: of_int_less_iff)
  qed
  have cmp2: "1 / 2 < f \<longleftrightarrow> 2 ^ k < 2 * r"
  proof -
    have "1 / 2 < f \<longleftrightarrow> (of_int (2 ^ k) :: rat) < of_int (2 * r)"
      using p by (simp add: f_def field_simps)
    then show ?thesis by (simp only: of_int_less_iff)
  qed
  have lt1: "f < 1" using r p by (simp add: f_def field_simps)
  have ge0: "0 \<le> f" using r by (simp add: f_def)
  consider "2 * r < 2 ^ k" | "2 ^ k < 2 * r" | "2 * r = 2 ^ k" by linarith
  then show ?thesis
  proof cases
    case 1
    then have res: "round_ties_even m k = q" by (simp add: round_ties_even_def q_def r_def Let_def)
    have "f < 1 / 2" using 1 cmp by simp
    then have "\<bar>(of_int q :: rat) - (of_int q + f)\<bar> \<le> 1 / 2" using ge0 by linarith
    then show ?thesis unfolding res v .
  next
    case 2
    then have res: "round_ties_even m k = q + 1"
      by (simp add: round_ties_even_def q_def r_def Let_def)
    have "1 / 2 < f" using 2 cmp2 by simp
    then have "\<bar>(of_int (q + 1) :: rat) - (of_int q + f)\<bar> \<le> 1 / 2" using lt1 by simp
    then show ?thesis unfolding res v .
  next
    case 3
    then have h: "f = 1 / 2" using cmp cmp2 by linarith
    have "round_ties_even m k = q \<or> round_ties_even m k = q + 1"
      using 3 by (simp add: round_ties_even_def q_def r_def Let_def)
    then show ?thesis
    proof
      assume res: "round_ties_even m k = q"
      have "\<bar>(of_int q :: rat) - (of_int q + f)\<bar> \<le> 1 / 2" using h by simp
      then show ?thesis unfolding res v .
    next
      assume res: "round_ties_even m k = q + 1"
      have "\<bar>(of_int (q + 1) :: rat) - (of_int q + f)\<bar> \<le> 1 / 2" using h by simp
      then show ?thesis unfolding res v .
    qed
  qed
qed

lemma bit_length_bound: "0 < n \<Longrightarrow> 2 ^ (bit_length n - 1) \<le> n"
proof (induction n rule: bit_length.induct)
  case (1 n)
  show ?case
  proof (cases "n div 2 = 0")
    case True
    then have "bit_length (n div 2) = 0" by (simp add: bit_length.simps)
    then have "bit_length n = 1" using "1.prems" by (subst bit_length.simps) simp
    then show ?thesis using "1.prems" by simp
  next
    case False
    then have pos: "0 < n div 2" by simp
    then have IH: "2 ^ (bit_length (n div 2) - 1) \<le> n div 2" using "1.IH" "1.prems" by simp
    have bl: "bit_length n = Suc (bit_length (n div 2))" using "1.prems" by (subst bit_length.simps) simp
    have "0 < bit_length (n div 2)" using pos by (subst bit_length.simps) simp
    then have "2 ^ (bit_length n - 1) = 2 * 2 ^ (bit_length (n div 2) - 1)"
      using bl by (cases "bit_length (n div 2)") simp_all
    also have "\<dots> \<le> 2 * (n div 2)" using IH by simp
    also have "\<dots> \<le> n" by simp
    finally show ?thesis .
  qed
qed

lemma round_binary64_close:
  assumes "0 \<le> m" and "(of_int m :: rat) * 2 powi e \<le> 100"
  shows "\<bar>number_value (round_binary64 m e) - of_int m * 2 powi e\<bar> \<le> 1 / 2 ^ 47"
proof -
  define k where "k = max (int (bit_length (nat \<bar>m\<bar>)) - 53) (- 1074 - e)"
  show ?thesis
  proof (cases "0 < k")
    case False
    then have "round_binary64 m e = \<lparr>mantissa = m, exponent = e\<rparr>"
      by (simp add: round_binary64_def k_def Let_def)
    then show ?thesis by (simp add: number_value_powi)
  next
    case True
    define R where "R = round_ties_even m (nat k)"
    have rb: "round_binary64 m e = \<lparr>mantissa = R, exponent = e + k\<rparr>"
      using True by (simp add: round_binary64_def k_def R_def Let_def)
    have pk: "(2::rat) powi k = 2 ^ nat k" using True by (simp add: power_int_def)
    have split: "(2::rat) powi (e + k) = 2 powi e * 2 ^ nat k"
      by (simp add: power_int_add pk)
    have exact: "(of_int m :: rat) * 2 powi e = of_int m / 2 ^ nat k * 2 powi (e + k)"
      by (simp add: split)
    have "\<bar>number_value (round_binary64 m e) - of_int m * 2 powi e\<bar>
        = \<bar>(of_int R - of_int m / 2 ^ nat k) * 2 powi (e + k)\<bar>"
      by (simp only: rb number_value_powi exact js_number.simps left_diff_distrib)
    also have "\<dots> = \<bar>of_int R - of_int m / 2 ^ nat k\<bar> * 2 powi (e + k)"
      by (simp add: abs_mult)
    also have "\<dots> \<le> 1 / 2 * 2 powi (e + k)"
      using round_ties_even_close[of m "nat k"] by (simp add: R_def mult_right_mono)
    also have "\<dots> \<le> 1 / 2 * 2 powi (- 46)"
    proof -
      have "e + k \<le> - 46"
      proof (cases "k = - 1074 - e")
        case True
        then show ?thesis by simp
      next
        case False
        then have ka: "k = int (bit_length (nat \<bar>m\<bar>)) - 53" by (simp add: k_def max_def split: if_splits)
        with \<open>0 < k\<close> have "0 < bit_length (nat \<bar>m\<bar>)" by simp
        then have mpos: "0 < nat \<bar>m\<bar>" by (subst (asm) bit_length.simps) (simp split: if_splits)
        define b where "b = bit_length (nat \<bar>m\<bar>)"
        have "2 ^ (b - 1) \<le> nat \<bar>m\<bar>" unfolding b_def using mpos by (rule bit_length_bound)
        then have "(2::int) ^ (b - 1) \<le> m" using assms(1) by (simp add: le_nat_iff)
        then have "(of_int ((2::int) ^ (b - 1)) :: rat) \<le> of_int m" by (simp only: of_int_le_iff)
        then have low: "(2::rat) ^ (b - 1) \<le> of_int m" by simp
        show ?thesis
        proof (rule ccontr)
          assume "\<not> e + k \<le> - 46"
          then have big: "7 \<le> e + int (b - 1)" using ka \<open>0 < k\<close> by (simp add: b_def)
          have "(2::rat) powi 7 \<le> 2 powi (e + int (b - 1))"
            using big by (intro power_int_increasing) simp_all
          also have "\<dots> = 2 powi e * 2 ^ (b - 1)" by (simp add: power_int_add)
          also have "\<dots> \<le> 2 powi e * of_int m" using low by (simp add: mult_left_mono)
          finally have "(128::rat) \<le> of_int m * 2 powi e" by (simp add: mult.commute)
          then show False using assms(2) by simp
        qed
      qed
      then have "(2::rat) powi (e + k) \<le> 2 powi (- 46)" by (intro power_int_increasing) simp_all
      then show ?thesis by simp
    qed
    also have "\<dots> = 1 / 2 ^ 47" by (simp add: power_int_def power_one_over)
    finally show ?thesis .
  qed
qed

lemma times_100_close:
  assumes "0 \<le> number_value c" and "number_value c \<le> 1"
  shows "\<bar>number_value (js_times c number_100) - number_value c * 100\<bar> \<le> 1 / 2 ^ 47"
proof -
  have m: "0 \<le> mantissa c * 100" using assms(1) by (simp add: number_value_sign)
  have v: "(of_int (mantissa c * 100) :: rat) * 2 powi exponent c = number_value c * 100"
    by (simp add: number_value_powi)
  have le: "(of_int (mantissa c * 100) :: rat) * 2 powi exponent c \<le> 100"
    unfolding v using assms(2) by simp
  have "\<bar>number_value (round_binary64 (mantissa c * 100) (exponent c))
      - of_int (mantissa c * 100) * 2 powi exponent c\<bar> \<le> 1 / 2 ^ 47"
    by (rule round_binary64_close[OF m le])
  then have "\<bar>number_value (round_binary64 (mantissa c * 100) (exponent c))
      - number_value c * 100\<bar> \<le> 1 / 2 ^ 47"
    unfolding v .
  moreover have "js_times c number_100 = round_binary64 (mantissa c * 100) (exponent c)"
    by (simp add: js_times_def number_100_def)
  ultimately show ?thesis by (simp only:)
qed

text \<open>
  Claim C8. The prompt shows the confidence, right before the percent sign, as the
  whole number nearest to confidence times 100. The product is the one the program
  computes, a binary64 product, which lies within \<open>1 / 2 ^ 47\<close> of the exact one;
  a half is rounded up. In particular the confidence 0.93 (the binary64 value
  nearest to it) is shown as "93", and 0.0 as "0", and the text that follows begins
  with "%".
\<close>

theorem confidence_rendering:
  "(0 \<le> number_value (DetectionInput.confidence d) \<and> number_value (DetectionInput.confidence d) \<le> 1 \<longrightarrow>
      (\<exists>n. build_prompt d = prompt_intro d @ decimal n @ prompt_format \<and>
           \<bar>of_nat n - number_value (js_times (DetectionInput.confidence d) number_100)\<bar> \<le> 1 / 2 \<and>
           \<bar>of_nat n - number_value (DetectionInput.confidence d) * 100\<bar> \<le> 1 / 2 + 1 / 2 ^ 47 \<and>
           n \<le> 100)) \<and>
   take 1 prompt_format = js ''%'' \<and>
   \<bar>number_value number_0_93 - 93 / 100\<bar> \<le> 1 / 2 ^ 54 \<and>
   toFixed0 (js_times number_0_93 number_100) = js ''93'' \<and>
   number_value number_0 = 0 \<and>
   toFixed0 (js_times number_0 number_100) = js ''0''"
proof -
  have general: "\<exists>n. build_prompt d = prompt_intro d @ decimal n @ prompt_format \<and>
      \<bar>of_nat n - number_value (js_times (DetectionInput.confidence d) number_100)\<bar> \<le> 1 / 2 \<and>
      \<bar>of_nat n - number_value (DetectionInput.confidence d) * 100\<bar> \<le> 1 / 2 + 1 / 2 ^ 47 \<and>
      n \<le> 100"
    if c0: "0 \<le> number_value (DetectionInput.confidence d)"
      and c1: "number_value (DetectionInput.confidence d) \<le> 1"
  proof -
    let ?c = "DetectionInput.confidence d"
    let ?p = "js_times ?c number_100"
    define n where "n = nat (nearest_integer ?p)"
    have "0 \<le> mantissa ?c" using c0 by (simp add: number_value_sign)
    then have m: "0 \<le> mantissa ?p"
      by (simp add: js_times_def number_100_def round_binary64_nonneg)
    then have nn: "0 \<le> nearest_integer ?p" by (rule nearest_integer_nonneg)
    have "toFixed0 ?p = decimal n" using m by (simp add: toFixed0_def n_def)
    then have prompt: "build_prompt d = prompt_intro d @ decimal n @ prompt_format"
      by (simp add: build_prompt_def)
    have near: "\<bar>of_nat n - number_value ?p\<bar> \<le> 1 / 2"
      using nearest_integer_close[of ?p] nn by (simp add: n_def)
    have prod: "\<bar>number_value ?p - number_value ?c * 100\<bar> \<le> 1 / 2 ^ 47"
      using c0 c1 by (rule times_100_close)
    have exact: "\<bar>of_nat n - number_value ?c * 100\<bar> \<le> 1 / 2 + 1 / 2 ^ 47"
      using near prod by linarith
    have "(of_nat n :: rat) \<le> number_value ?c * 100 + (1 / 2 + 1 / 2 ^ 47)"
      using exact by linarith
    also have "\<dots> < 101" using c1 by simp
    finally have "(of_nat n :: rat) < of_nat 101" by simp
    then have "n < 101" by (simp only: of_nat_less_iff)
    then have "n \<le> 100" by simp
    then show ?thesis using prompt near exact by blast
  qed
  have "take 1 prompt_format = js ''%''" by (simp add: prompt_format_def js_def)
  moreover have "\<bar>number_value number_0_93 - 93 / 100\<bar> \<le> 1 / 2 ^ 54"
    by (simp add: number_value_def number_0_93_def)
  moreover have "toFixed0 (js_times number_0_93 number_100) = js ''93''"
    by (simp add: times_100 toFixed0_def nearest_integer_def decimal.simps js_def)
  moreover have "number_value number_0 = 0" by (simp add: number_value_def number_0_def)
  moreover have "toFixed0 (js_times number_0 number_100) = js ''0''"
    by (simp add: toFixed0_def nearest_integer_def decimal.simps js_def js_times_def number_0_def
        number_100_def round_binary64_def bit_length.simps round_ties_even_def Let_def)
  ultimately show ?thesis using general by blast
qed

theorem confidence_rendering_witness:
  "0 \<le> number_value (DetectionInput.confidence tomato) \<and>
   number_value (DetectionInput.confidence tomato) \<le> 1 \<and>
   (\<exists>n. build_prompt tomato = prompt_intro tomato @ decimal n @ prompt_format \<and>
      \<bar>of_nat n - number_value (js_times (DetectionInput.confidence tomato) number_100)\<bar> \<le> 1 / 2 \<and>
      \<bar>of_nat n - number_value (DetectionInput.confidence tomato) * 100\<bar> \<le> 1 / 2 + 1 / 2 ^ 47 \<and>
      n \<le> 100)"
proof -
  have h: "0 \<le> number_value (DetectionInput.confidence tomato) \<and>
      number_value (DetectionInput.confidence tomato) \<le> 1"
    by (simp add: tomato_def number_0_93_def number_value_def)
  then show ?thesis using confidence_rendering[of tomato] by blast
qed

section \<open>Claims about generateCropAdvice\<close>

lemma generate_returns:
  assumes "generateContent env
      \<lparr>model = modelName this, role = js ''user'', parts_text = build_prompt d\<rparr> = Inr resp"
    and "response_text resp = JString t"
  shows "generateCropAdvice this env d =
     Inr \<lparr>cause = section_text (label_of Cause) (boundary_of Cause) (fallback_of Cause) t,
          symptoms = section_text (label_of Symptoms) (boundary_of Symptoms) (fallback_of Symptoms) t,
          immediate = section_text (label_of Immediate) (boundary_of Immediate) (fallback_of Immediate) t,
          chemical = section_text (label_of Chemical) (boundary_of Chemical) (fallback_of Chemical) t,
          organic = section_text (label_of Organic) (boundary_of Organic) (fallback_of Organic) t,
          prevention = section_text (label_of Prevention) (boundary_of Prevention) (fallback_of Prevention) t,
          metadata = \<lparr>crop = DetectionInput.crop d, disease = DetectionInput.disease d,
            severity = DetectionInput.severity d, confidence = DetectionInput.confidence d,
            generatedAt = toISOString_now env, model = modelName this\<rparr>\<rparr>"
  using assms by (simp add: generateCropAdvice_def try_generate_def bind_err_def parse_string)

lemma generate_call_throws:
  assumes "generateContent env
      \<lparr>model = modelName this, role = js ''user'', parts_text = build_prompt d\<rparr> = Inl e"
  shows "generateCropAdvice this env d =
     Inl (new_Error (js ''Failed to generate advice from Gemini AI: '' @ message e))"
  using assms by (simp add: generateCropAdvice_def try_generate_def bind_err_def)

lemma generate_parse_throws:
  assumes "generateContent env
      \<lparr>model = modelName this, role = js ''user'', parts_text = build_prompt d\<rparr> = Inr resp"
    and "response_text resp = JUndefined \<or> response_text resp = JNull"
  shows "generateCropAdvice this env d =
     Inl (new_Error (js ''Failed to generate advice from Gemini AI: '' @ js ''Failed to parse AI response''))"
proof -
  have "parseAdviceResponse (response_text resp) = Inl (new_Error (js ''Failed to parse AI response''))"
    using assms(2) by (auto simp: parseAdviceResponse_def try_parse_def)
  then show ?thesis using assms(1)
    by (simp add: generateCropAdvice_def try_generate_def bind_err_def new_Error_def)
qed

lemma env_reply_call: "generateContent (env_reply txt) req = Inr \<lparr>response_text = txt\<rparr>"
  by (simp add: env_reply_def)

lemma env_throw_call: "generateContent (env_throw e) req = Inl e"
  by (simp add: env_throw_def)

lemma generate_on_reply:
  "generateCropAdvice this (env_reply (JString t)) d =
     Inr \<lparr>cause = section_text (label_of Cause) (boundary_of Cause) (fallback_of Cause) t,
          symptoms = section_text (label_of Symptoms) (boundary_of Symptoms) (fallback_of Symptoms) t,
          immediate = section_text (label_of Immediate) (boundary_of Immediate) (fallback_of Immediate) t,
          chemical = section_text (label_of Chemical) (boundary_of Chemical) (fallback_of Chemical) t,
          organic = section_text (label_of Organic) (boundary_of Organic) (fallback_of Organic) t,
          prevention = section_text (label_of Prevention) (boundary_of Prevention) (fallback_of Prevention) t,
          metadata = \<lparr>crop = DetectionInput.crop d, disease = DetectionInput.disease d,
            severity = DetectionInput.severity d, confidence = DetectionInput.confidence d,
            generatedAt = js ''2026-01-01T00:00:00.000Z'', model = modelName this\<rparr>\<rparr>"
proof -
  have "toISOString_now (env_reply (JString t)) = js ''2026-01-01T00:00:00.000Z''"
    by (simp add: env_reply_def)
  then show ?thesis using generate_returns[OF env_reply_call, of "JString t" t this d] by simp
qed

text \<open>
  Claim C1 says that no field of a generated advice is ever the empty string: each
  is extracted text or the fallback of the field. The code returns an empty field
  when a label is followed by whitespace only up to the end of the reply: the
  pattern then matches with a single whitespace character as its capture, the
  fallback is not used, and \<^verbatim>\<open>trim\<close> leaves the empty string. Here the reply is
  "CAUSE: Fungus." followed by a blank line, "PREVENTION:" and a line break.
\<close>

theorem cut_short_reply_gives_empty_field:
  "generateCropAdvice new_LLMService (env_reply (JString reply_cut_short)) tomato =
     Inr \<lparr>cause = js ''Fungus.'', symptoms = js ''Unable to determine symptoms'',
          immediate = js ''Consult agricultural expert'',
          chemical = js ''Consult local agriculture office'',
          organic = js ''Neem oil spray recommended'', prevention = [],
          metadata = \<lparr>crop = js ''Tomato'', disease = js ''Early Blight'',
            severity = js ''medium'', confidence = number_0_93,
            generatedAt = js ''2026-01-01T00:00:00.000Z'', model = js ''gemini-2.5-flash''\<rparr>\<rparr>"
proof -
  have c: "section_text (label_of Cause) (boundary_of Cause) (fallback_of Cause) reply_cut_short
      = js ''Fungus.''"
    by (simp add: reply_cut_short_def eval_defs)
  have s: "section_text (label_of Symptoms) (boundary_of Symptoms) (fallback_of Symptoms)
      reply_cut_short = js ''Unable to determine symptoms''"
    by (simp add: reply_cut_short_def eval_defs)
  have i: "section_text (label_of Immediate) (boundary_of Immediate) (fallback_of Immediate)
      reply_cut_short = js ''Consult agricultural expert''"
    by (simp add: reply_cut_short_def eval_defs)
  have ch: "section_text (label_of Chemical) (boundary_of Chemical) (fallback_of Chemical)
      reply_cut_short = js ''Consult local agriculture office''"
    by (simp add: reply_cut_short_def eval_defs)
  have org: "section_text (label_of Organic) (boundary_of Organic) (fallback_of Organic)
      reply_cut_short = js ''Neem oil spray recommended''"
    by (simp add: reply_cut_short_def eval_defs)
  have p: "section_text (label_of Prevention) (boundary_of Prevention) (fallback_of Prevention)
      reply_cut_short = []"
    by (simp add: reply_cut_short_def eval_defs)
  show ?thesis
    unfolding generate_on_reply c s i ch org p by (simp add: tomato_def new_LLMService_def)
qed

text \<open>
  Claim C9. When the call returns a response whose text is a string,
  generateCropAdvice returns, and the metadata of the result holds the crop,
  disease, severity and confidence of the input unchanged, the timestamp read from
  the clock, and the model identifier of the service, which is the one sent with
  the call; for the service as constructed it is "gemini-2.5-flash". It returns in
  no other case, so every result carries this metadata. For the input with crop
  "Tomato" and confidence 0.93 the metadata has crop "Tomato" and confidence 0.93
  (the witness).
\<close>

theorem metadata_copies_input:
  "(generateContent env
       \<lparr>model = modelName this, role = js ''user'', parts_text = build_prompt d\<rparr> = Inr resp \<and>
     response_text resp = JString t \<longrightarrow>
     (\<exists>r. generateCropAdvice this env d = Inr r \<and>
        metadata r =
          \<lparr>crop = DetectionInput.crop d, disease = DetectionInput.disease d,
           severity = DetectionInput.severity d, confidence = DetectionInput.confidence d,
           generatedAt = toISOString_now env, model = modelName this\<rparr>)) \<and>
   (generateCropAdvice this env d = Inr r' \<longrightarrow>
     metadata r' =
       \<lparr>crop = DetectionInput.crop d, disease = DetectionInput.disease d,
        severity = DetectionInput.severity d, confidence = DetectionInput.confidence d,
        generatedAt = toISOString_now env, model = modelName this\<rparr> \<and>
     (\<exists>resp'. generateContent env
        \<lparr>model = modelName this, role = js ''user'', parts_text = build_prompt d\<rparr> = Inr resp')) \<and>
   modelName new_LLMService = js ''gemini-2.5-flash''"
proof (intro conjI impI)
  assume "generateContent env
       \<lparr>model = modelName this, role = js ''user'', parts_text = build_prompt d\<rparr> = Inr resp \<and>
     response_text resp = JString t"
  then show "\<exists>r. generateCropAdvice this env d = Inr r \<and>
        metadata r =
          \<lparr>crop = DetectionInput.crop d, disease = DetectionInput.disease d,
           severity = DetectionInput.severity d, confidence = DetectionInput.confidence d,
           generatedAt = toISOString_now env, model = modelName this\<rparr>"
    using generate_returns[of env this d resp t] by simp
next
  assume "generateCropAdvice this env d = Inr r'"
  then show "metadata r' =
       \<lparr>crop = DetectionInput.crop d, disease = DetectionInput.disease d,
        severity = DetectionInput.severity d, confidence = DetectionInput.confidence d,
        generatedAt = toISOString_now env, model = modelName this\<rparr>"
    by (auto simp: generateCropAdvice_def try_generate_def bind_err_def split: sum.splits)
next
  assume "generateCropAdvice this env d = Inr r'"
  then show "\<exists>resp'. generateContent env
        \<lparr>model = modelName this, role = js ''user'', parts_text = build_prompt d\<rparr> = Inr resp'"
    by (auto simp: generateCropAdvice_def try_generate_def bind_err_def split: sum.splits)
next
  show "modelName new_LLMService = js ''gemini-2.5-flash''" by (simp add: new_LLMService_def)
qed

theorem metadata_copies_input_witness:
  "\<exists>r. generateCropAdvice new_LLMService (env_reply (JString (js ''CAUSE: rust''))) tomato = Inr r \<and>
      metadata r =
        \<lparr>crop = js ''Tomato'', disease = js ''Early Blight'', severity = js ''medium'',
         confidence = number_0_93, generatedAt = js ''2026-01-01T00:00:00.000Z'',
         model = js ''gemini-2.5-flash''\<rparr>"
proof -
  let ?env = "env_reply (JString (js ''CAUSE: rust''))"
  have call: "generateContent ?env
      \<lparr>model = modelName new_LLMService, role = js ''user'', parts_text = build_prompt tomato\<rparr>
       = Inr \<lparr>response_text = JString (js ''CAUSE: rust'')\<rparr> \<and>
     response_text \<lparr>response_text = JString (js ''CAUSE: rust'')\<rparr> = JString (js ''CAUSE: rust'')"
    by (simp add: env_reply_call)
  obtain r where r: "generateCropAdvice new_LLMService ?env tomato = Inr r"
     and m: "metadata r =
          \<lparr>crop = DetectionInput.crop tomato, disease = DetectionInput.disease tomato,
           severity = DetectionInput.severity tomato, confidence = DetectionInput.confidence tomato,
           generatedAt = toISOString_now ?env, model = modelName new_LLMService\<rparr>"
    using metadata_copies_input[of ?env new_LLMService tomato
        "\<lparr>response_text = JString (js ''CAUSE: rust'')\<rparr>" "js ''CAUSE: rust''"] call
    by blast
  have "metadata r =
        \<lparr>crop = js ''Tomato'', disease = js ''Early Blight'', severity = js ''medium'',
         confidence = number_0_93, generatedAt = js ''2026-01-01T00:00:00.000Z'',
         model = js ''gemini-2.5-flash''\<rparr>"
    unfolding m by (simp add: tomato_def env_reply_def new_LLMService_def)
  then show ?thesis using r by blast
qed

text \<open>
  Claim C2, as the code has it. Whatever is thrown inside the \<^verbatim>\<open>try\<close> block is
  caught and replaced by \<^verbatim>\<open>new Error\<close> with the message "Failed to generate advice
  from Gemini AI: " followed by the message of what was caught. When the call fails
  that is the message of the underlying cause; when parsing fails it is "Failed to
  parse AI response". The new error has no status: the status of the cause is not
  copied onto it. Every failure of the operation has this form, so the two kinds
  differ in the text of the message only.
\<close>

theorem generate_failure_message:
  "(generateContent env
       \<lparr>model = modelName this, role = js ''user'', parts_text = build_prompt d\<rparr> = Inl e \<longrightarrow>
     generateCropAdvice this env d =
       Inl \<lparr>message = js ''Failed to generate advice from Gemini AI: '' @ message e,
            status = None\<rparr>) \<and>
   (generateContent env
       \<lparr>model = modelName this, role = js ''user'', parts_text = build_prompt d\<rparr> = Inr resp \<and>
     (response_text resp = JUndefined \<or> response_text resp = JNull) \<longrightarrow>
     generateCropAdvice this env d =
       Inl \<lparr>message = js ''Failed to generate advice from Gemini AI: '' @
              js ''Failed to parse AI response'',
            status = None\<rparr>) \<and>
   (generateCropAdvice this env d = Inl err \<longrightarrow>
     status err = None \<and>
     take 42 (message err) = js ''Failed to generate advice from Gemini AI: '')"
proof -
  have "generateCropAdvice this env d = Inl err \<Longrightarrow>
     status err = None \<and>
     take 42 (message err) = js ''Failed to generate advice from Gemini AI: ''"
    by (auto simp: generateCropAdvice_def new_Error_def js_def split: sum.splits)
  then show ?thesis
    using generate_call_throws[of env this d e] generate_parse_throws[of env this d resp]
    by (simp add: new_Error_def)
qed

theorem generate_failure_message_witness:
  "generateCropAdvice new_LLMService
      (env_throw \<lparr>message = js ''quota exceeded'', status = Some 429\<rparr>) tomato =
     Inl \<lparr>message = js ''Failed to generate advice from Gemini AI: '' @ js ''quota exceeded'',
          status = None\<rparr> \<and>
   generateCropAdvice new_LLMService (env_reply JUndefined) tomato =
     Inl \<lparr>message = js ''Failed to generate advice from Gemini AI: '' @
            js ''Failed to parse AI response'',
          status = None\<rparr>"
proof -
  have "generateCropAdvice new_LLMService
      (env_throw \<lparr>message = js ''quota exceeded'', status = Some 429\<rparr>) tomato =
     Inl \<lparr>message = js ''Failed to generate advice from Gemini AI: '' @
            message \<lparr>message = js ''quota exceeded'', status = Some 429\<rparr>,
          status = None\<rparr>"
    using generate_failure_message[of "env_throw \<lparr>message = js ''quota exceeded'', status = Some 429\<rparr>"
        new_LLMService tomato "\<lparr>message = js ''quota exceeded'', status = Some 429\<rparr>"]
    by (simp only: env_throw_call simp_thms)
  moreover have "generateCropAdvice new_LLMService (env_reply JUndefined) tomato =
     Inl \<lparr>message = js ''Failed to generate advice from Gemini AI: '' @
            js ''Failed to parse AI response'',
          status = None\<rparr>"
    using generate_failure_message[of "env_reply JUndefined" new_LLMService tomato _
        "\<lparr>response_text = JUndefined\<rparr>"]
    by (simp only: env_reply_call simp_thms response.simps)
  ultimately show ?thesis by simp
qed

text \<open>
  Claim C2, as it is stated, fails: a failed call whose cause has the status 429 and
  the message "Failed to parse AI response", and a reply without text, on which
  parsing fails, make the operation fail with one and the same error. It carries no
  status code, and nothing in it tells the caller which of the two happened.
\<close>

theorem failures_look_alike_counterexample:
  "generateCropAdvice new_LLMService
      (env_throw \<lparr>message = js ''Failed to parse AI response'', status = Some 429\<rparr>) tomato =
     Inl \<lparr>message = js ''Failed to generate advice from Gemini AI: Failed to parse AI response'',
          status = None\<rparr> \<and>
   generateCropAdvice new_LLMService (env_reply JUndefined) tomato =
     Inl \<lparr>message = js ''Failed to generate advice from Gemini AI: Failed to parse AI response'',
          status = None\<rparr>"
proof -
  have "generateCropAdvice new_LLMService
      (env_throw \<lparr>message = js ''Failed to parse AI response'', status = Some 429\<rparr>) tomato =
     Inl (new_Error (js ''Failed to generate advice from Gemini AI: '' @
        message \<lparr>message = js ''Failed to parse AI response'', status = Some 429\<rparr>))"
    by (rule generate_call_throws[OF env_throw_call])
  moreover have "generateCropAdvice new_LLMService (env_reply JUndefined) tomato =
     Inl (new_Error (js ''Failed to generate advice from Gemini AI: '' @
        js ''Failed to parse AI response''))"
    by (rule generate_parse_throws[OF env_reply_call]) simp
  ultimately show ?thesis by (simp add: new_Error_def js_def)
qed

section \<open>Claims about generateBatchAdvice\<close>

lemma batch_length:
  "length (map (\<lambda>(i, data). generateCropAdvice this (envs i) data) (enumerate 0 ds)) = length ds"
  by simp

text \<open>
  Claim C6. When the generation succeeds for every element of the array, the batch
  returns one result per element, and result \<open>i\<close> is the result of
  generateCropAdvice for element \<open>i\<close>, in whatever order the calls complete:
  \<open>order\<close> is any sequence of indices in which each call occurs. The claim
  speaks of N \<ge> 1 elements; the theorem holds for the empty array too.
\<close>

theorem batch_keeps_input_order:
  assumes "\<forall>i<length ds. \<not> isl (generateCropAdvice this (envs i) (ds ! i))"
    and "{..<length ds} \<subseteq> set order"
  shows "\<exists>rs. generateBatchAdvice this envs order ds = Some (Inr rs) \<and>
           length rs = length ds \<and>
           (\<forall>i<length ds. generateCropAdvice this (envs i) (ds ! i) = Inr (rs ! i))"
proof -
  let ?ps = "map (\<lambda>i. generateCropAdvice this (envs i) (ds ! i)) [0..<length ds]"
  have ok: "\<forall>i<length ?ps. \<not> isl (?ps ! i)" using assms(1) by simp
  have cover: "{..<length ?ps} \<subseteq> set order" using assms(2) by simp
  have "generateBatchAdvice this envs order ds = Some (Inr (map projr ?ps))"
    unfolding generateBatchAdvice_def batch_promises by (rule promise_all_fulfilled[OF ok cover])
  moreover have "length (map projr ?ps) = length ds" by simp
  moreover have "\<forall>i<length ds. generateCropAdvice this (envs i) (ds ! i) = Inr (map projr ?ps ! i)"
  proof (intro allI impI)
    fix i assume i: "i < length ds"
    then have "\<not> isl (generateCropAdvice this (envs i) (ds ! i))" using assms(1) by simp
    then show "generateCropAdvice this (envs i) (ds ! i) = Inr (map projr ?ps ! i)"
      using i by (cases "generateCropAdvice this (envs i) (ds ! i)") simp_all
  qed
  ultimately show ?thesis by blast
qed

lemma second_fails_0: "\<not> isl (generateCropAdvice this (second_fails 0) d)"
  by (simp add: second_fails_def generate_on_reply)

lemma second_fails_1:
  "generateCropAdvice this (second_fails 1) d =
     Inl \<lparr>message = js ''Failed to generate advice from Gemini AI: quota exceeded'', status = None\<rparr>"
proof -
  have "generateCropAdvice this (env_throw quota_error) d =
     Inl (new_Error (js ''Failed to generate advice from Gemini AI: '' @ message quota_error))"
    by (rule generate_call_throws[OF env_throw_call])
  then show ?thesis by (simp add: second_fails_def new_Error_def quota_error_def js_def)
qed

lemma second_fails_Suc:
  "generateCropAdvice this (second_fails (Suc 0)) d =
     Inl \<lparr>message = js ''Failed to generate advice from Gemini AI: quota exceeded'', status = None\<rparr>"
  using second_fails_1[of this d] by simp

lemma rust_envs_ok: "\<not> isl (generateCropAdvice this (rust_envs i) d)"
  by (simp add: rust_envs_def generate_on_reply)

theorem batch_keeps_input_order_witness:
  "\<exists>rs. generateBatchAdvice new_LLMService rust_envs [1, 0] [tomato, potato] = Some (Inr rs) \<and>
      length rs = 2 \<and>
      generateCropAdvice new_LLMService (rust_envs 0) tomato = Inr (rs ! 0) \<and>
      generateCropAdvice new_LLMService (rust_envs 1) potato = Inr (rs ! 1)"
proof -
  have ok: "\<forall>i<length [tomato, potato].
      \<not> isl (generateCropAdvice new_LLMService (rust_envs i) ([tomato, potato] ! i))"
    by (simp add: rust_envs_ok)
  have cover: "{..<length [tomato, potato]} \<subseteq> set [1, 0]" by auto
  obtain rs where rs: "generateBatchAdvice new_LLMService rust_envs [1, 0] [tomato, potato] = Some (Inr rs)"
      "length rs = length [tomato, potato]"
      "\<forall>i<length [tomato, potato].
         generateCropAdvice new_LLMService (rust_envs i) ([tomato, potato] ! i) = Inr (rs ! i)"
    using batch_keeps_input_order[OF ok cover] by blast
  have "generateCropAdvice new_LLMService (rust_envs 0) ([tomato, potato] ! 0) = Inr (rs ! 0)"
    using rs(3)[rule_format, of 0] by simp
  moreover have "generateCropAdvice new_LLMService (rust_envs 1) ([tomato, potato] ! 1) = Inr (rs ! 1)"
    using rs(3)[rule_format, of 1] by simp
  ultimately show ?thesis using rs(1,2) by auto
qed

lemma batch_first_failure:
  assumes "find (\<lambda>i. i < length ds \<and> isl (generateCropAdvice this (envs i) (ds ! i))) order = Some k"
  shows "generateBatchAdvice this envs order ds =
           Some (Inl (projl (generateCropAdvice this (envs k) (ds ! k))))"
proof -
  let ?ps = "map (\<lambda>i. generateCropAdvice this (envs i) (ds ! i)) [0..<length ds]"
  let ?bad = "\<lambda>i. i < length ds \<and> isl (generateCropAdvice this (envs i) (ds ! i))"
  have kb: "?bad k" using assms by (auto simp: find_Some_iff)
  have same: "(\<lambda>i. i < length ?ps \<and> isl (?ps ! i)) = ?bad" by (rule ext) auto
  have "find (\<lambda>i. i < length ?ps \<and> isl (?ps ! i)) order = Some k" using assms by (simp only: same)
  then have "promise_all ?ps order = Some (Inl (projl (?ps ! k)))" by (rule promise_all_rejected)
  then show ?thesis unfolding generateBatchAdvice_def batch_promises using kb by simp
qed

text \<open>
  Claim C3, as the code has it. When the generation fails for at least one element,
  the batch fails whatever the order in which the calls complete: no list is
  returned, and the error is the one of the first call to fail in that order, as
  generateCropAdvice threw it. The results of the other calls are dropped.
\<close>

theorem batch_fails_with_first_failure:
  assumes "\<exists>i<length ds. isl (generateCropAdvice this (envs i) (ds ! i))"
    and "{..<length ds} \<subseteq> set order"
  shows "\<exists>k e. find (\<lambda>i. i < length ds \<and> isl (generateCropAdvice this (envs i) (ds ! i))) order = Some k \<and>
           generateCropAdvice this (envs k) (ds ! k) = Inl e \<and>
           generateBatchAdvice this envs order ds = Some (Inl e)"
proof -
  let ?bad = "\<lambda>i. i < length ds \<and> isl (generateCropAdvice this (envs i) (ds ! i))"
  from assms obtain i where "i \<in> set order" "?bad i" by auto
  then obtain k where k: "find ?bad order = Some k"
    by (cases "find ?bad order") (auto simp: find_None_iff)
  then have kb: "?bad k" by (auto simp: find_Some_iff)
  then obtain e where e: "generateCropAdvice this (envs k) (ds ! k) = Inl e"
    by (cases "generateCropAdvice this (envs k) (ds ! k)") auto
  have "generateBatchAdvice this envs order ds = Some (Inl e)"
    using batch_first_failure[OF k] e by simp
  then show ?thesis using k e by blast
qed

theorem batch_fails_with_first_failure_witness:
  "generateBatchAdvice new_LLMService second_fails [0, 1] [tomato, potato] =
     Some (Inl \<lparr>message = js ''Failed to generate advice from Gemini AI: quota exceeded'',
                 status = None\<rparr>)"
proof -
  have bad: "\<exists>i<length [tomato, potato].
      isl (generateCropAdvice new_LLMService (second_fails i) ([tomato, potato] ! i))"
  proof -
    have "(1::nat) < length [tomato, potato]" by simp
    moreover have "isl (generateCropAdvice new_LLMService (second_fails 1) ([tomato, potato] ! 1))"
      by (simp add: second_fails_1 second_fails_Suc)
    ultimately show ?thesis by blast
  qed
  have cover: "{..<length [tomato, potato]} \<subseteq> set [0, 1]" by auto
  obtain k e where k: "find (\<lambda>i. i < length [tomato, potato] \<and>
        isl (generateCropAdvice new_LLMService (second_fails i) ([tomato, potato] ! i))) [0, 1] = Some k"
      and e: "generateCropAdvice new_LLMService (second_fails k) ([tomato, potato] ! k) = Inl e"
      and b: "generateBatchAdvice new_LLMService second_fails [0, 1] [tomato, potato] = Some (Inl e)"
    using batch_fails_with_first_failure[OF bad cover] by blast
  have "k = 1" using k by (simp add: second_fails_0 second_fails_1 second_fails_Suc)
  then have "e = \<lparr>message = js ''Failed to generate advice from Gemini AI: quota exceeded'',
      status = None\<rparr>"
    using e by (simp add: second_fails_1 second_fails_Suc)
  then show ?thesis using b by simp
qed

text \<open>
  Claim C3, as it is stated, fails in its last part: the failure is not wrapped.
  The error of the batch is the very error of the failing call, with the same
  message and nothing around it.
\<close>

theorem batch_error_is_item_error_counterexample:
  "generateBatchAdvice new_LLMService second_fails [0, 1] [tomato, potato] =
     Some (Inl \<lparr>message = js ''Failed to generate advice from Gemini AI: quota exceeded'',
                 status = None\<rparr>) \<and>
   generateCropAdvice new_LLMService (second_fails 1) potato =
     Inl \<lparr>message = js ''Failed to generate advice from Gemini AI: quota exceeded'',
          status = None\<rparr>"
proof -
  have "find (\<lambda>i. i < length [tomato, potato] \<and>
        isl (generateCropAdvice new_LLMService (second_fails i) ([tomato, potato] ! i))) [0, 1] = Some 1"
    by (simp add: second_fails_0 second_fails_1 second_fails_Suc)
  then have "generateBatchAdvice new_LLMService second_fails [0, 1] [tomato, potato] =
      Some (Inl (projl (generateCropAdvice new_LLMService (second_fails 1) ([tomato, potato] ! 1))))"
    by (rule batch_first_failure)
  then show ?thesis by (simp add: second_fails_1 second_fails_Suc)
qed

end
